theory Spec2Isabelle
  imports Complex_Main "HOL-Library.Word"
begin

section \<open>Replay of a CAN log: \<^verbatim>\<open>scripts/play-log-file.py\<close>\<close>

text \<open>
  The script reads a CSV log row by row, parses each row into the fields of a CAN
  frame, waits until the frame is due relative to the first parsed row, sends the frame
  and prints a confirmation. One \<^verbatim>\<open>try\<close>/\<^verbatim>\<open>except Exception\<close> encloses the
  whole body of the loop.

  Conventions of the model.
  \<^item> Python \<^verbatim>\<open>str\<close> is \<open>string\<close>; only ASCII text is modelled.
  \<^item> Python \<^verbatim>\<open>int\<close> is \<open>int\<close>. Python \<^verbatim>\<open>float\<close> is idealised as \<open>real\<close>: the
    division by \<^verbatim>\<open>1e6\<close> and the subtractions are exact and never overflow.
  \<^item> An exception is a value of type \<open>error\<close>, returned as \<open>Inl\<close>.
  \<^item> The wall clock, the bus and the console are outside the script. The state carries
    the clock; how much time passes at each point of an iteration, and whether the
    bus accepts the frame, is an input of the model (\<open>env\<close>, one per row).
\<close>

subsection \<open>Built-ins of the language\<close>

datatype error = ValueError | KeyError | TypeError | AttributeError | CanError

text \<open>Sequencing: the first exception ends the computation.\<close>

definition and_then :: "error + 'a \<Rightarrow> ('a \<Rightarrow> error + 'b) \<Rightarrow> error + 'b" where
  "and_then m f = (case m of Inl e \<Rightarrow> Inl e | Inr x \<Rightarrow> f x)"

text \<open>Whitespace that \<^verbatim>\<open>int()\<close> strips from an ASCII string: tab, line feed, vertical
  tab, form feed, carriage return, space.\<close>

definition py_isspace :: "char \<Rightarrow> bool" where
  "py_isspace c = (c \<in> set [CHR 0x09, CHR 0x0A, CHR 0x0B, CHR 0x0C, CHR 0x0D, CHR '' ''])"

text \<open>The value of a character as a digit, in any base up to 36: \<^verbatim>\<open>0\<close> to \<^verbatim>\<open>9\<close>
  (codes 48 to 57), \<^verbatim>\<open>a\<close> to \<^verbatim>\<open>z\<close> (97 to 122) and \<^verbatim>\<open>A\<close> to \<^verbatim>\<open>Z\<close> (65 to 90);
  37 for a character that is no digit.\<close>

definition digit_value :: "char \<Rightarrow> nat" where
  "digit_value c =
     (let n = of_char c :: nat in
      if 48 \<le> n \<and> n \<le> 57 then n - 48
      else if 97 \<le> n \<and> n \<le> 122 then n - 87
      else if 65 \<le> n \<and> n \<le> 90 then n - 55
      else 37)"

definition is_digit_or_us :: "nat \<Rightarrow> char \<Rightarrow> bool" where
  "is_digit_or_us base c = (digit_value c < base \<or> c = CHR ''_'')"

fun double_us :: "string \<Rightarrow> bool" where
  "double_us (a # b # cs) = ((a = CHR ''_'' \<and> b = CHR ''_'') \<or> double_us (b # cs))"
| "double_us cs = False"

definition strip_sign :: "string \<Rightarrow> int \<times> string" where
  "strip_sign s =
     (case s of
        c # cs \<Rightarrow> if c = CHR ''+'' then (1, cs) else if c = CHR ''-'' then (- 1, cs) else (1, s)
      | [] \<Rightarrow> (1, s))"

text \<open>In base 16 a prefix \<^verbatim>\<open>0x\<close> or \<^verbatim>\<open>0X\<close> is skipped, and one underscore after it.\<close>

definition strip_prefix :: "nat \<Rightarrow> string \<Rightarrow> string" where
  "strip_prefix base s =
     (case s of
        a # b # cs \<Rightarrow>
          if base = 16 \<and> a = CHR ''0'' \<and> (b = CHR ''x'' \<or> b = CHR ''X'')
          then (case cs of c # ds \<Rightarrow> if c = CHR ''_'' then ds else cs | [] \<Rightarrow> cs)
          else s
      | _ \<Rightarrow> s)"

definition digits_value :: "nat \<Rightarrow> string \<Rightarrow> int" where
  "digits_value base ds =
     foldl (\<lambda>acc c. acc * int base + int (digit_value c)) 0 (filter (\<lambda>c. c \<noteq> CHR ''_'') ds)"

text \<open>\<^verbatim>\<open>int(s, base)\<close> on a string: optional whitespace, an optional sign, in base 16
  an optional prefix, then digits with single underscores between them, then optional
  whitespace. Anything else raises \<^verbatim>\<open>ValueError\<close>.\<close>

definition py_int_str :: "nat \<Rightarrow> string \<Rightarrow> error + int" where
  "py_int_str base s =
     (let (sign, s1) = strip_sign (dropWhile py_isspace s);
          s2 = strip_prefix base s1;
          body = takeWhile (is_digit_or_us base) s2;
          rest = dropWhile (is_digit_or_us base) s2
      in if body = [] \<or> hd body = CHR ''_'' \<or> last body = CHR ''_'' \<or> double_us body
            \<or> \<not> list_all py_isspace rest
         then Inl ValueError
         else Inr (sign * digits_value base body))"

text \<open>A cell of a row is a string, or \<^verbatim>\<open>None\<close> where the row is shorter than the
  header. \<^verbatim>\<open>int(None)\<close> raises \<^verbatim>\<open>TypeError\<close>.\<close>

type_synonym cell = "string option"

definition py_int :: "nat \<Rightarrow> cell \<Rightarrow> error + int" where
  "py_int base c = (case c of None \<Rightarrow> Inl TypeError | Some s \<Rightarrow> py_int_str base s)"

text \<open>\<^verbatim>\<open>str.lower()\<close> on ASCII text; \<^verbatim>\<open>None.lower()\<close> raises \<^verbatim>\<open>AttributeError\<close>.\<close>

definition lower_char :: "char \<Rightarrow> char" where
  "lower_char c =
     (case map_of (zip ''ABCDEFGHIJKLMNOPQRSTUVWXYZ'' ''abcdefghijklmnopqrstuvwxyz'') c of
        Some l \<Rightarrow> l
      | None \<Rightarrow> c)"

definition py_lower :: "cell \<Rightarrow> error + string" where
  "py_lower c = (case c of None \<Rightarrow> Inl AttributeError | Some s \<Rightarrow> Inr (map lower_char s))"

text \<open>Truth value of a cell in \<^verbatim>\<open>if row[key]:\<close>.\<close>

definition truthy :: "cell \<Rightarrow> bool" where
  "truthy c = (case c of None \<Rightarrow> False | Some s \<Rightarrow> s \<noteq> [])"

text \<open>\<^verbatim>\<open>str(n)\<close>, and the format specifications \<^verbatim>\<open>X\<close>, \<^verbatim>\<open>02X\<close> and \<^verbatim>\<open>.6f\<close>.\<close>

definition digit_char :: "nat \<Rightarrow> char" where
  "digit_char d = ''0123456789ABCDEF'' ! d"

fun str_nat :: "nat \<Rightarrow> nat \<Rightarrow> string" where
  "str_nat base n =
     (if n < base \<or> base < 2 then [digit_char n]
      else str_nat base (n div base) @ [digit_char (n mod base)])"

declare str_nat.simps [simp del]

definition py_str :: "int \<Rightarrow> string" where
  "py_str n = (if n < 0 then ''-'' else '''') @ str_nat 10 (nat \<bar>n\<bar>)"

definition py_format_X :: "int \<Rightarrow> string" where
  "py_format_X n = (if n < 0 then ''-'' else '''') @ str_nat 16 (nat \<bar>n\<bar>)"

definition zero_pad :: "nat \<Rightarrow> string \<Rightarrow> string" where
  "zero_pad w s = replicate (w - length s) (CHR ''0'') @ s"

definition py_format_02X :: "int \<Rightarrow> string" where
  "py_format_02X n =
     (if n < 0 then ''-'' @ zero_pad 1 (str_nat 16 (nat \<bar>n\<bar>))
      else zero_pad 2 (str_nat 16 (nat n)))"

definition py_format_6f :: "real \<Rightarrow> string" where
  "py_format_6f x =
     (let a = \<bar>x\<bar> * 1000000;
          m = \<lfloor>a\<rfloor>;
          f = a - of_int m;
          r = (if 1 / 2 < f \<or> (f = 1 / 2 \<and> odd m) then m + 1 else m)
      in (if x < 0 then ''-'' else '''') @ str_nat 10 (nat (r div 1000000)) @ ''.'' @
         zero_pad 6 (str_nat 10 (nat (r mod 1000000))))"

fun py_join :: "string \<Rightarrow> string list \<Rightarrow> string" where
  "py_join sep [] = []"
| "py_join sep [x] = x"
| "py_join sep (x # y # ys) = x @ sep @ py_join sep (y # ys)"

text \<open>\<^verbatim>\<open>bytes(xs)\<close> raises \<^verbatim>\<open>ValueError\<close> unless every element is in
  \<^verbatim>\<open>range(0, 256)\<close>.\<close>

definition py_bytes :: "int list \<Rightarrow> error + 8 word list" where
  "py_bytes xs =
     (if list_all (\<lambda>x. 0 \<le> x \<and> x < 256) xs then Inr (map word_of_int xs) else Inl ValueError)"

subsection \<open>A row and its parse (lines 22 to 31)\<close>

text \<open>A row of \<^verbatim>\<open>csv.DictReader\<close>: a dictionary from column names to cells. Looking up
  a column that the header does not have raises \<^verbatim>\<open>KeyError\<close>.\<close>

type_synonym row = "string \<rightharpoonup> cell"

definition row_get :: "row \<Rightarrow> string \<Rightarrow> error + cell" where
  "row_get r k = (case r k of None \<Rightarrow> Inl KeyError | Some c \<Rightarrow> Inr c)"

record log_record =
  ts :: real
  canid :: int
  dlc :: int
  is_extended :: bool
  data_bytes :: "int list"

text \<open>The column of the \<open>i\<close>-th data byte, \<^verbatim>\<open>f"D{i}"\<close>.\<close>

definition data_key :: "int \<Rightarrow> string" where
  "data_key i = ''D'' @ py_str i"

text \<open>The loop over \<^verbatim>\<open>range(1, dlc+1)\<close>: the list of indices, and the bytes collected
  so far.\<close>

fun collect :: "row \<Rightarrow> int list \<Rightarrow> int list \<Rightarrow> error + int list" where
  "collect r [] acc = Inr acc"
| "collect r (i # is) acc =
     and_then (row_get r (data_key i)) (\<lambda>c.
       if truthy c
       then and_then (py_int 16 c) (\<lambda>v. collect r is (acc @ [v]))
       else collect r is acc)"

definition parse_row :: "row \<Rightarrow> error + log_record" where
  "parse_row r =
     and_then (row_get r ''Time Stamp'') (\<lambda>c1.
     and_then (py_int 10 c1) (\<lambda>us.
     and_then (row_get r ''ID'') (\<lambda>c2.
     and_then (py_int 16 c2) (\<lambda>cid.
     and_then (row_get r ''LEN'') (\<lambda>c3.
     and_then (py_int 10 c3) (\<lambda>d.
     and_then (row_get r ''Extended'') (\<lambda>c4.
     and_then (py_lower c4) (\<lambda>low.
     and_then (collect r [1..d] []) (\<lambda>bs.
       Inr \<lparr>ts = real_of_int us / 1000000, canid = cid, dlc = d,
            is_extended = (low = ''true''), data_bytes = bs\<rparr>)))))))))"

subsection \<open>The body of the loop (lines 22 to 45)\<close>

text \<open>The two module-level variables, and the wall clock.\<close>

record state =
  start_ts :: "real option"
  start_time :: "real option"
  clock :: real

definition init :: "real \<Rightarrow> state" where
  "init t = \<lparr>start_ts = None, start_time = None, clock = t\<rparr>"

text \<open>What the surroundings do during one iteration: the time that passes until the row
  is read and parsed (\<open>lat_parse\<close>), between the two readings of the clock in the
  iteration that sets the baseline (\<open>lat_now\<close>), beyond the requested time while
  asleep (\<open>oversleep\<close>), and from waking up to the transmission (\<open>lat_send\<close>); and
  the exception that \<^verbatim>\<open>bus.send\<close> raises, if any.\<close>

record env =
  lat_parse :: real
  lat_now :: real
  oversleep :: real
  lat_send :: real
  send_error :: "error option"

definition causal :: "env \<Rightarrow> bool" where
  "causal e = (0 \<le> lat_parse e \<and> 0 \<le> lat_now e \<and> 0 \<le> oversleep e \<and> 0 \<le> lat_send e)"

record can_message =
  arbitration_id :: int
  data :: "8 word list"
  is_extended_id :: bool

definition sent_line :: "log_record \<Rightarrow> string" where
  "sent_line rc =
     ''Sent t='' @ py_format_6f (ts rc) @ ''s ID=0x'' @ py_format_X (canid rc) @
     '' DLC='' @ py_str (dlc rc) @ '' Data='' @
     py_join '' '' (map py_format_02X (data_bytes rc))"

text \<open>What one completed body has done: the instant of the transmission, the frame, and
  the line printed.\<close>

record sent =
  sent_at :: real
  frame :: can_message
  line :: string

text \<open>Lines 33 to 35: the first parsed row sets the baseline.\<close>

definition set_baseline :: "state \<Rightarrow> log_record \<Rightarrow> env \<Rightarrow> state" where
  "set_baseline st rc e =
     (if start_ts st = None
      then st\<lparr>start_ts := Some (ts rc), start_time := Some (clock st),
              clock := clock st + lat_now e\<rparr>
      else st)"

text \<open>Lines 37 to 39. Subtracting \<^verbatim>\<open>None\<close> raises \<^verbatim>\<open>TypeError\<close>.\<close>

definition wait_time :: "state \<Rightarrow> log_record \<Rightarrow> error + real" where
  "wait_time st rc =
     (case start_time st of
        None \<Rightarrow> Inl TypeError
      | Some t0 \<Rightarrow>
          (case start_ts st of
             None \<Rightarrow> Inl TypeError
           | Some ts0 \<Rightarrow> Inr ((ts rc - ts0) - (clock st - t0))))"

text \<open>Lines 40 and 41: the sleep lasts the requested time and what the surroundings
  add.\<close>

definition sleep_if_early :: "state \<Rightarrow> real \<Rightarrow> env \<Rightarrow> state \<times> real option" where
  "sleep_if_early st w e =
     (if 0 < w then (st\<lparr>clock := clock st + w + oversleep e\<rparr>, Some w) else (st, None))"

text \<open>Lines 43 to 45: \<^verbatim>\<open>bytes(data_bytes)\<close> is evaluated first, then the message is
  built and handed to the bus, then the line is printed.\<close>

definition transmit :: "state \<Rightarrow> log_record \<Rightarrow> env \<Rightarrow> state \<times> (error + sent)" where
  "transmit st rc e =
     (case py_bytes (data_bytes rc) of
        Inl err \<Rightarrow> (st, Inl err)
      | Inr bs \<Rightarrow>
          (let st' = st\<lparr>clock := clock st + lat_send e\<rparr> in
           (case send_error e of
              Some err \<Rightarrow> (st', Inl err)
            | None \<Rightarrow>
                (st', Inr \<lparr>sent_at = clock st',
                          frame = \<lparr>arbitration_id = canid rc, data = bs,
                                   is_extended_id = is_extended rc\<rparr>,
                          line = sent_line rc\<rparr>))))"

text \<open>The body returns the state as it leaves it (assignments made before an exception
  stay), the argument of \<^verbatim>\<open>time.sleep\<close> if it was called, and the exception or the
  completed send.\<close>

definition after_parse :: "state \<Rightarrow> log_record \<Rightarrow> env \<Rightarrow> state \<times> real option \<times> (error + sent)" where
  "after_parse st rc e =
     (let st1 = set_baseline st rc e in
      (case wait_time st1 rc of
         Inl err \<Rightarrow> (st1, None, Inl err)
       | Inr w \<Rightarrow>
           (case sleep_if_early st1 w e of
              (st2, slept) \<Rightarrow>
                (case transmit st2 rc e of (st3, res) \<Rightarrow> (st3, slept, res)))))"

definition body :: "state \<Rightarrow> row \<Rightarrow> env \<Rightarrow> state \<times> real option \<times> (error + sent)" where
  "body st r e =
     (let st0 = st\<lparr>clock := clock st + lat_parse e\<rparr> in
      (case parse_row r of
         Inl err \<Rightarrow> (st0, None, Inl err)
       | Inr rc \<Rightarrow> after_parse st0 rc e))"

subsection \<open>The handler (lines 46 and 47) and the loop (line 20)\<close>

text \<open>Per row: the argument of the sleep, if any, and either the send or the skip line,
  which prints the exception and the row.\<close>

datatype outcome = Sent sent | Skipped error row

definition step :: "state \<Rightarrow> row \<times> env \<Rightarrow> state \<times> real option \<times> outcome" where
  "step st x =
     (case body st (fst x) (snd x) of
        (st', slept, Inl err) \<Rightarrow> (st', slept, Skipped err (fst x))
      | (st', slept, Inr s) \<Rightarrow> (st', slept, Sent s))"

fun run :: "state \<Rightarrow> (row \<times> env) list \<Rightarrow> state \<times> (real option \<times> outcome) list" where
  "run st [] = (st, [])"
| "run st (x # xs) =
     (case step st x of
        (st', out) \<Rightarrow> (case run st' xs of (st'', outs) \<Rightarrow> (st'', out # outs)))"

subsection \<open>Notions used in the statements\<close>

definition baseline :: "state \<Rightarrow> real option \<times> real option" where
  "baseline st = (start_ts st, start_time st)"

text \<open>A row is malformed when lines 22 to 31 raise on it.\<close>

definition malformed :: "row \<Rightarrow> bool" where
  "malformed r = isl (parse_row r)"

text \<open>The reading of the clock at line 37 in the iteration that starts in state \<open>st\<close>.\<close>

definition reading :: "state \<Rightarrow> log_record \<Rightarrow> env \<Rightarrow> real" where
  "reading st rc e = clock (set_baseline (st\<lparr>clock := clock st + lat_parse e\<rparr>) rc e)"

text \<open>The instants of the transmissions of a run, row by row.\<close>

definition send_instants :: "(real option \<times> outcome) list \<Rightarrow> real option list" where
  "send_instants outs =
     map (\<lambda>out. case snd out of Sent s \<Rightarrow> Some (sent_at s) | Skipped err r \<Rightarrow> None) outs"

text \<open>The \<open>i\<close>-th data column of a row is populated when the row has a non-empty text
  there; \<open>field_value r i v\<close> says that the text there is non-empty and that \<open>v\<close> is
  what it denotes in base 16.\<close>

definition populated :: "row \<Rightarrow> int \<Rightarrow> bool" where
  "populated r i = (case r (data_key i) of Some c \<Rightarrow> truthy c | None \<Rightarrow> False)"

definition field_value :: "row \<Rightarrow> int \<Rightarrow> int \<Rightarrow> bool" where
  "field_value r i v =
     (case r (data_key i) of
        Some (Some s) \<Rightarrow> s \<noteq> [] \<and> py_int_str 16 s = Inr v
      | _ \<Rightarrow> False)"

text \<open>A text that is \<^verbatim>\<open>true\<close> up to the case of its letters.\<close>

definition true_ignoring_case :: "string \<Rightarrow> bool" where
  "true_ignoring_case s =
     list_all2 (\<lambda>c p. c = fst p \<or> c = snd p) s
       [(CHR ''t'', CHR ''T''), (CHR ''r'', CHR ''R''), (CHR ''u'', CHR ''U''),
        (CHR ''e'', CHR ''E'')]"

text \<open>The two variables of the baseline are set together.\<close>

definition consistent :: "state \<Rightarrow> bool" where
  "consistent st = ((start_ts st = None) = (start_time st = None))"

text \<open>The length code of the frame itself. Line 43 passes no \<^verbatim>\<open>dlc\<close> to
  \<^verbatim>\<open>can.Message\<close>, which then takes the number of bytes of the data.\<close>

definition frame_dlc :: "can_message \<Rightarrow> nat" where
  "frame_dlc m = length (data m)"

text \<open>Texts of decimal digits and of upper-case hexadecimal digits; the lines a run
  prints for the frames it sends, row by row.\<close>

definition decimal :: "string \<Rightarrow> bool" where
  "decimal s = list_all (\<lambda>c. c \<in> set ''0123456789'') s"

definition upper_hex :: "string \<Rightarrow> bool" where
  "upper_hex s = list_all (\<lambda>c. c \<in> set ''0123456789ABCDEF'') s"

definition printed_lines :: "(real option \<times> outcome) list \<Rightarrow> string option list" where
  "printed_lines outs =
     map (\<lambda>out. case snd out of Sent s \<Rightarrow> Some (line s) | Skipped err r \<Rightarrow> None) outs"

subsection \<open>Sample input\<close>

text \<open>\<^verbatim>\<open>csv.DictReader\<close> pairs the names of the header with the values of a line; a
  line shorter than the header gets \<^verbatim>\<open>None\<close> for the missing values, and of two
  columns of one name the later wins.\<close>

definition dict_row :: "string list \<Rightarrow> string list \<Rightarrow> row" where
  "dict_row hdr vals =
     map_of (rev (zip hdr (map Some vals @ replicate (length hdr - length vals) None)))"

definition log_header :: "string list" where
  "log_header = [''Time Stamp'', ''ID'', ''Extended'', ''LEN'',
     ''D1'', ''D2'', ''D3'', ''D4'', ''D5'', ''D6'', ''D7'', ''D8'']"

definition sample_row :: "string \<Rightarrow> string \<Rightarrow> string \<Rightarrow> string \<Rightarrow> string list \<Rightarrow> row" where
  "sample_row stamp ident ext len ds = dict_row log_header ([stamp, ident, ext, len] @ ds)"

definition row_bad_id :: row where
  "row_bad_id = sample_row ''4000000'' ''XYZ'' ''False'' ''1'' [''AA'']"

definition row_a :: row where
  "row_a = sample_row ''5000000'' ''1f'' ''True'' ''3'' [''AB'', [], ''0x7'']"

definition row_b :: row where
  "row_b = sample_row ''6000000'' ''2A0'' ''false'' ''2'' [''01'', ''FF'']"

definition row_c :: row where
  "row_c = sample_row ''6500000'' ''7FF'' ''false'' ''0'' []"

definition rec_a :: log_record where
  "rec_a = \<lparr>ts = 5, canid = 31, dlc = 3, is_extended = True, data_bytes = [171, 7]\<rparr>"

definition rec_b :: log_record where
  "rec_b = \<lparr>ts = 6, canid = 672, dlc = 2, is_extended = False, data_bytes = [1, 255]\<rparr>"

definition rec_c :: log_record where
  "rec_c = \<lparr>ts = 13 / 2, canid = 2047, dlc = 0, is_extended = False, data_bytes = []\<rparr>"

definition quiet :: env where
  "quiet = \<lparr>lat_parse = 0, lat_now = 0, oversleep = 0, lat_send = 0, send_error = None\<rparr>"

text \<open>A sleep that lasts one second longer than requested, and a bus that refuses the
  frame.\<close>

definition late :: env where
  "late = \<lparr>lat_parse = 0, lat_now = 0, oversleep = 1, lat_send = 0, send_error = None\<rparr>"

definition bus_down :: env where
  "bus_down =
     \<lparr>lat_parse = 0, lat_now = 0, oversleep = 0, lat_send = 0, send_error = Some CanError\<rparr>"

text \<open>A row with a negative \<^verbatim>\<open>LEN\<close>, and a row whose second data byte does not fit a
  byte.\<close>

definition row_neg :: row where
  "row_neg = sample_row ''7000000'' ''123'' ''false'' ''-1'' []"

definition rec_neg :: log_record where
  "rec_neg = \<lparr>ts = 7, canid = 291, dlc = - 1, is_extended = False, data_bytes = []\<rparr>"

definition row_wide :: row where
  "row_wide = sample_row ''5000000'' ''1f'' ''True'' ''2'' [''0A'', ''1FF'']"

definition rec_wide :: log_record where
  "rec_wide = \<lparr>ts = 5, canid = 31, dlc = 2, is_extended = True, data_bytes = [10, 511]\<rparr>"

text \<open>A row with \<^verbatim>\<open>LEN\<close> 9 and all eight data columns populated.\<close>

definition row_nine :: row where
  "row_nine = sample_row ''8000000'' ''123'' ''false'' ''9''
     [''01'', ''02'', ''03'', ''04'', ''05'', ''06'', ''07'', ''08'']"

section \<open>Properties\<close>

subsection \<open>Evaluation on concrete input\<close>

lemma str_nat_small: "n < base \<Longrightarrow> str_nat base n = [digit_char n]"
  by (simp add: str_nat.simps)

lemma str_nat_big:
  "2 \<le> base \<Longrightarrow> base \<le> n \<Longrightarrow>
   str_nat base n = str_nat base (n div base) @ [digit_char (n mod base)]"
  by (subst str_nat.simps) simp

lemma replicate_numeral: "replicate (numeral k) x = x # replicate (pred_numeral k) x"
  by (simp add: numeral_eq_Suc)

lemmas str_eval = str_nat_small str_nat_big digit_char_def zero_pad_def replicate_numeral
  py_str_def py_format_X_def py_format_02X_def

lemmas int_eval = py_int_def py_int_str_def strip_sign_def strip_prefix_def py_isspace_def
  is_digit_or_us_def digit_value_def digits_value_def

lemmas row_eval = sample_row_def dict_row_def log_header_def row_get_def data_key_def

lemmas parse_eval = parse_row_def and_then_def py_lower_def lower_char_def truthy_def upto_rec1

lemma parse_row_bad_id: "parse_row row_bad_id = Inl ValueError"
  by (simp add: row_bad_id_def int_eval row_eval parse_eval str_eval)

lemma parse_row_a: "parse_row row_a = Inr rec_a"
  by (simp add: row_a_def rec_a_def int_eval row_eval parse_eval str_eval)

lemma parse_row_b: "parse_row row_b = Inr rec_b"
  by (simp add: row_b_def rec_b_def int_eval row_eval parse_eval str_eval)

lemma parse_row_c: "parse_row row_c = Inr rec_c"
  by (simp add: row_c_def rec_c_def int_eval row_eval parse_eval str_eval)

lemma parse_row_neg: "parse_row row_neg = Inr rec_neg"
  by (simp add: row_neg_def rec_neg_def int_eval row_eval parse_eval str_eval)

lemma parse_row_wide: "parse_row row_wide = Inr rec_wide"
  by (simp add: row_wide_def rec_wide_def int_eval row_eval parse_eval str_eval)

lemma parse_row_nine: "parse_row row_nine = Inl KeyError"
  by (simp add: row_nine_def int_eval row_eval parse_eval str_eval)

lemmas sample_parse = parse_row_bad_id parse_row_a parse_row_b parse_row_c

lemma malformed_samples:
  "malformed row_bad_id" "\<not> malformed row_a" "\<not> malformed row_b" "\<not> malformed row_c"
  by (simp_all add: malformed_def sample_parse)

lemma causal_samples: "causal quiet" "causal late" "causal bus_down"
  by (simp_all add: causal_def quiet_def late_def bus_down_def)

subsection \<open>The loop, one row at a time\<close>

lemma run_Cons:
  "run st (x # xs) =
     (fst (run (fst (step st x)) xs), snd (step st x) # snd (run (fst (step st x)) xs))"
  by (simp split: prod.splits)

declare run.simps(2) [simp del]

lemma step_proj:
  "fst (step st x) = fst (body st (fst x) (snd x))"
  "fst (snd (step st x)) = fst (snd (body st (fst x) (snd x)))"
  "snd (snd (step st x)) =
     (case snd (snd (body st (fst x) (snd x))) of
        Inl err \<Rightarrow> Skipped err (fst x) | Inr s \<Rightarrow> Sent s)"
  by (simp_all add: step_def split: prod.splits sum.splits)

lemma sleep_if_early_fields:
  "start_ts (fst (sleep_if_early st w e)) = start_ts st"
  "start_time (fst (sleep_if_early st w e)) = start_time st"
  by (simp_all add: sleep_if_early_def)

lemma transmit_fields:
  "start_ts (fst (transmit st rc e)) = start_ts st"
  "start_time (fst (transmit st rc e)) = start_time st"
  by (simp_all add: transmit_def Let_def split: sum.splits option.splits)

lemma after_parse_proj:
  "fst (after_parse st rc e) =
     (case wait_time (set_baseline st rc e) rc of
        Inl err \<Rightarrow> set_baseline st rc e
      | Inr w \<Rightarrow> fst (transmit (fst (sleep_if_early (set_baseline st rc e) w e)) rc e))"
  "fst (snd (after_parse st rc e)) =
     (case wait_time (set_baseline st rc e) rc of
        Inl err \<Rightarrow> None
      | Inr w \<Rightarrow> snd (sleep_if_early (set_baseline st rc e) w e))"
  "snd (snd (after_parse st rc e)) =
     (case wait_time (set_baseline st rc e) rc of
        Inl err \<Rightarrow> Inl err
      | Inr w \<Rightarrow> snd (transmit (fst (sleep_if_early (set_baseline st rc e) w e)) rc e))"
  by (simp_all add: after_parse_def Let_def split: sum.splits prod.splits)

lemma after_parse_fields:
  "start_ts (fst (after_parse st rc e)) = start_ts (set_baseline st rc e)"
  "start_time (fst (after_parse st rc e)) = start_time (set_baseline st rc e)"
  by (simp_all add: after_parse_proj sleep_if_early_fields transmit_fields split: sum.splits)

lemma body_proj:
  "body st r e =
     (case parse_row r of
        Inl err \<Rightarrow> (st\<lparr>clock := clock st + lat_parse e\<rparr>, None, Inl err)
      | Inr rc \<Rightarrow> after_parse (st\<lparr>clock := clock st + lat_parse e\<rparr>) rc e)"
  by (simp add: body_def Let_def)

lemma length_run: "length (snd (run st xs)) = length xs"
  by (induction xs arbitrary: st) (simp_all add: run_Cons)

lemma run_append:
  "run st (xs @ ys) =
     (fst (run (fst (run st xs)) ys), snd (run st xs) @ snd (run (fst (run st xs)) ys))"
  by (induction xs arbitrary: st) (simp_all add: run_Cons)

lemma run_take_Suc:
  "k < length xs \<Longrightarrow>
   fst (run st (take (Suc k) xs)) = fst (step (fst (run st (take k xs))) (xs ! k))"
  by (simp add: take_Suc_conv_app_nth run_append run_Cons)

lemma run_nth:
  "k < length xs \<Longrightarrow> snd (run st xs) ! k = snd (step (fst (run st (take k xs))) (xs ! k))"
proof (induction xs arbitrary: st k)
  case Nil
  then show ?case by simp
next
  case (Cons x xs)
  show ?case
  proof (cases k)
    case 0
    then show ?thesis by (simp add: run_Cons)
  next
    case (Suc j)
    with Cons.prems have "j < length xs" by simp
    from Cons.IH[OF this] Suc show ?thesis by (simp add: run_Cons)
  qed
qed

lemma run_split_at:
  assumes "j < length xs"
  shows "fst (run st xs) =
     fst (run (fst (step (fst (run st (take j xs))) (xs ! j))) (drop (Suc j) xs))"
proof -
  have "xs = take j xs @ xs ! j # drop (Suc j) xs"
    using assms by (rule id_take_nth_drop)
  then have "run st xs = run st (take j xs @ xs ! j # drop (Suc j) xs)"
    by simp
  then show ?thesis
    by (simp add: run_append run_Cons)
qed

lemmas step_eval = run_Cons step_proj body_proj after_parse_proj set_baseline_def wait_time_def
  sleep_if_early_def transmit_def py_bytes_def Let_def init_def

subsection \<open>The baseline\<close>

lemma set_baseline_set: "start_ts st \<noteq> None \<Longrightarrow> set_baseline st rc e = st"
  by (auto simp: set_baseline_def)

lemma step_baseline_set:
  "start_ts st \<noteq> None \<Longrightarrow> baseline (fst (step st x)) = baseline st"
  by (simp add: baseline_def step_proj body_proj after_parse_fields set_baseline_set
      split: sum.splits)

lemma step_baseline_fail:
  "malformed (fst x) \<Longrightarrow> baseline (fst (step st x)) = baseline st"
  by (cases "parse_row (fst x)") (simp_all add: malformed_def baseline_def step_proj body_proj)

lemma step_baseline_first:
  "start_ts st = None \<Longrightarrow> parse_row (fst x) = Inr rc \<Longrightarrow>
   baseline (fst (step st x)) = (Some (ts rc), Some (clock st + lat_parse (snd x)))"
  by (simp add: baseline_def step_proj body_proj after_parse_fields set_baseline_def)

lemma run_baseline_set:
  "start_ts st \<noteq> None \<Longrightarrow> baseline (fst (run st xs)) = baseline st"
proof (induction xs arbitrary: st)
  case Nil
  then show ?case by simp
next
  case (Cons x xs)
  have eq: "baseline (fst (step st x)) = baseline st"
    using Cons.prems by (rule step_baseline_set)
  with Cons.prems have "start_ts (fst (step st x)) \<noteq> None"
    by (simp add: baseline_def)
  from Cons.IH[OF this] eq show ?case
    by (simp add: run_Cons)
qed

lemma run_baseline_fail:
  "\<forall>x\<in>set xs. malformed (fst x) \<Longrightarrow> baseline (fst (run st xs)) = baseline st"
  by (induction xs arbitrary: st) (simp_all add: run_Cons step_baseline_fail)

text \<open>
  Claim C2. In a run from the initial state, the baseline after the first \<open>k\<close> rows is
  unset as long as these rows are all malformed, and from the first row that parses
  on it is that row's timestamp and the reading of the clock in that row's iteration,
  whatever the later rows are. So the baseline is written once, by the first row that
  parses; a malformed row neither sets nor changes it.
\<close>

theorem baseline_history:
  assumes "k \<le> length xs"
  shows "baseline (fst (run (init t) (take k xs))) =
     (let n = length (takeWhile (\<lambda>x. malformed (fst x)) xs) in
      if k \<le> n then (None, None)
      else (Some (ts (projr (parse_row (fst (xs ! n))))),
            Some (clock (fst (run (init t) (take n xs))) + lat_parse (snd (xs ! n)))))"
proof -
  define P where "P = (\<lambda>x :: row \<times> env. malformed (fst x))"
  define n where "n = length (takeWhile P xs)"
  have pre: "baseline (fst (run (init t) (take j xs))) = (None, None)" if "j \<le> n" for j
  proof -
    have "take j xs = take j (takeWhile P xs)"
      using that unfolding n_def
      by (metis min.absorb2 takeWhile_eq_take take_take min.commute)
    then have "\<forall>x\<in>set (take j xs). P x"
      by (metis in_set_takeD set_takeWhileD)
    then have "baseline (fst (run (init t) (take j xs))) = baseline (init t)"
      unfolding P_def by (rule run_baseline_fail)
    then show ?thesis by (simp add: baseline_def init_def)
  qed
  show ?thesis
  proof (cases "k \<le> n")
    case True
    with pre[OF True] show ?thesis by (simp add: n_def P_def)
  next
    case False
    then have nk: "n < k" by simp
    with assms have nlen: "n < length xs" by simp
    have notP: "\<not> P (xs ! n)"
      unfolding n_def using nlen n_def by (metis nth_length_takeWhile)
    then obtain rc where rc: "parse_row (fst (xs ! n)) = Inr rc"
      unfolding P_def malformed_def by (cases "parse_row (fst (xs ! n))") auto
    let ?s = "fst (run (init t) (take n xs))"
    have "start_ts ?s = None"
      using pre[of n] by (simp add: baseline_def)
    then have first: "baseline (fst (step ?s (xs ! n))) =
        (Some (ts rc), Some (clock ?s + lat_parse (snd (xs ! n))))"
      using rc by (rule step_baseline_first)
    have split: "take k xs = take (Suc n) xs @ take (k - Suc n) (drop (Suc n) xs)"
      using nk by (metis Suc_leI le_add_diff_inverse take_add)
    have "baseline (fst (run (init t) (take k xs))) =
        baseline (fst (run (fst (run (init t) (take (Suc n) xs)))
                           (take (k - Suc n) (drop (Suc n) xs))))"
      by (subst split) (simp add: run_append)
    also have "\<dots> = baseline (fst (run (init t) (take (Suc n) xs)))"
      by (rule run_baseline_set) (use first nlen in \<open>simp add: run_take_Suc baseline_def\<close>)
    also have "\<dots> = (Some (ts rc), Some (clock ?s + lat_parse (snd (xs ! n))))"
      using first nlen by (simp add: run_take_Suc)
    finally show ?thesis
      using False rc by (simp add: n_def P_def Let_def)
  qed
qed

theorem baseline_history_witness:
  "(3::nat) \<le> length [(row_bad_id, quiet), (row_a, quiet), (row_b, quiet)] \<and>
   baseline (fst (run (init 100) (take 3 [(row_bad_id, quiet), (row_a, quiet), (row_b, quiet)])))
     = (Some 5, Some 100)"
  using baseline_history [of 3 "[(row_bad_id, quiet), (row_a, quiet), (row_b, quiet)]" 100]
  by (simp add: malformed_samples sample_parse run_Cons step_proj body_proj init_def quiet_def
      rec_a_def)

text \<open>
  Claim C10. When the first row that parses then fails, at the construction of the
  frame or at the send, the row is reported as skipped and nothing is transmitted for
  it, but the baseline is the one this row has set: its timestamp and the reading of the
  clock in its iteration. Every later row that parses, after any rows in between, waits
  relative to that baseline. (In the model \<^verbatim>\<open>time.sleep\<close> does not raise, and for this
  row it is not called.)
\<close>

theorem failed_first_record_sets_baseline:
  assumes "start_ts st = None" and "parse_row r = Inr rc"
    and "isl (py_bytes (data_bytes rc)) \<or> send_error e \<noteq> None"
  shows "(\<exists>err. snd (snd (step st (r, e))) = Skipped err r) \<and>
     baseline (fst (step st (r, e))) = (Some (ts rc), Some (clock st + lat_parse e)) \<and>
     (\<forall>ys r2 e2 rc2. parse_row r2 = Inr rc2 \<longrightarrow>
        fst (snd (step (fst (run (fst (step st (r, e))) ys)) (r2, e2))) =
          (let w = (ts rc2 - ts rc) -
                   (clock (fst (run (fst (step st (r, e))) ys)) + lat_parse e2 -
                    (clock st + lat_parse e))
           in if 0 < w then Some w else None))"
proof -
  let ?st' = "fst (step st (r, e))"
  have skipped: "\<exists>err. snd (snd (step st (r, e))) = Skipped err r"
    using assms
    by (auto simp add: step_proj body_proj after_parse_proj set_baseline_def wait_time_def
        transmit_def Let_def isl_def split: sum.splits option.splits)
  have base: "baseline ?st' = (Some (ts rc), Some (clock st + lat_parse e))"
    using step_baseline_first[of st "(r, e)" rc] assms(1,2) by simp
  have later: "fst (snd (step (fst (run ?st' ys)) (r2, e2))) =
          (let w = (ts rc2 - ts rc) -
                   (clock (fst (run ?st' ys)) + lat_parse e2 - (clock st + lat_parse e))
           in if 0 < w then Some w else None)"
    if "parse_row r2 = Inr rc2" for ys r2 e2 rc2
  proof -
    have "start_ts ?st' \<noteq> None"
      using base by (simp add: baseline_def)
    then have "baseline (fst (run ?st' ys)) = baseline ?st'"
      by (rule run_baseline_set)
    with base have b: "start_ts (fst (run ?st' ys)) = Some (ts rc)"
      "start_time (fst (run ?st' ys)) = Some (clock st + lat_parse e)"
      by (simp_all add: baseline_def)
    show ?thesis
      using that b
      by (simp add: step_proj body_proj after_parse_proj set_baseline_def wait_time_def
          sleep_if_early_def Let_def)
  qed
  from skipped base later show ?thesis by blast
qed

theorem failed_first_record_sets_baseline_witness:
  "start_ts (init 100) = None \<and> parse_row row_a = Inr rec_a \<and>
   send_error bus_down = Some CanError \<and>
   snd (snd (step (init 100) (row_a, bus_down))) = Skipped CanError row_a \<and>
   baseline (fst (step (init 100) (row_a, bus_down))) = (Some 5, Some 100)"
proof -
  have h1: "start_ts (init 100) = None"
    by (simp add: init_def)
  have h3: "isl (py_bytes (data_bytes rec_a)) \<or> send_error bus_down \<noteq> None"
    by (simp add: bus_down_def)
  have out: "snd (snd (step (init 100) (row_a, bus_down))) = Skipped CanError row_a"
    by (simp add: step_eval parse_row_a rec_a_def bus_down_def)
  from failed_first_record_sets_baseline [OF h1 parse_row_a h3] h1 h3 parse_row_a out
  show ?thesis by (simp add: rec_a_def init_def bus_down_def)
qed

subsection \<open>The handler\<close>

text \<open>The exceptions of the body are those of its steps: of the parse, of the
  subtraction, of \<^verbatim>\<open>bytes\<close> and of the send.\<close>

lemma body_raises_iff:
  "snd (snd (body st r e)) = Inl err \<longleftrightarrow>
     parse_row r = Inl err \<or>
     (\<exists>rc. parse_row r = Inr rc \<and>
        (wait_time (set_baseline (st\<lparr>clock := clock st + lat_parse e\<rparr>) rc e) rc = Inl err \<or>
         (\<exists>w. wait_time (set_baseline (st\<lparr>clock := clock st + lat_parse e\<rparr>) rc e) rc = Inr w \<and>
            (py_bytes (data_bytes rc) = Inl err \<or>
             (\<exists>bs. py_bytes (data_bytes rc) = Inr bs \<and> send_error e = Some err)))))"
  by (auto simp add: body_proj after_parse_proj transmit_def Let_def
      split: sum.splits option.splits)



subsection \<open>Waiting\<close>

lemma step_first_no_sleep:
  assumes "start_ts st = None" and "parse_row r = Inr rc" and "0 \<le> lat_now e"
  shows "fst (snd (step st (r, e))) = None"
  using assms
  by (simp add: step_proj body_proj after_parse_proj set_baseline_def wait_time_def
      sleep_if_early_def)

lemma step_first_sent_at:
  assumes "start_ts st = None" and "parse_row r = Inr rc" and "0 \<le> lat_now e"
    and "snd (snd (step st (r, e))) = Sent s"
  shows "sent_at s = clock st + lat_parse e + lat_now e + lat_send e"
  using assms
  by (auto simp add: step_proj body_proj after_parse_proj set_baseline_def wait_time_def
      sleep_if_early_def transmit_def Let_def split: sum.splits option.splits)

lemma step_first_sends:
  assumes "start_ts st = None" and "parse_row r = Inr rc"
    and "py_bytes (data_bytes rc) = Inr bs" and "send_error e = None"
  shows "\<exists>s. snd (snd (step st (r, e))) = Sent s"
  using assms
  by (simp add: step_proj body_proj after_parse_proj set_baseline_def wait_time_def
      transmit_def Let_def)

text \<open>
  Claim C4. In a run from the initial state, the first row that parses is not waited
  for: \<^verbatim>\<open>time.sleep\<close> is not called in its iteration, since its wait time is minus the
  time between the two readings of the clock, and when the frame is sent, the
  transmission follows the start of the iteration by the latencies alone; the frame is
  sent whenever its bytes are in range and the bus accepts it. The clock is taken not
  to run backwards between the two readings.
\<close>

theorem first_record_no_wait:
  assumes "\<forall>x\<in>set pre. malformed (fst x)" and "parse_row r = Inr rc" and "0 \<le> lat_now e"
  shows "fst (snd (run (init t) (pre @ (r, e) # post)) ! length pre) = None \<and>
     (\<forall>s. snd (snd (run (init t) (pre @ (r, e) # post)) ! length pre) = Sent s \<longrightarrow>
          sent_at s = clock (fst (run (init t) pre)) + lat_parse e + lat_now e + lat_send e) \<and>
     (\<forall>bs. py_bytes (data_bytes rc) = Inr bs \<longrightarrow> send_error e = None \<longrightarrow>
          (\<exists>s. snd (snd (run (init t) (pre @ (r, e) # post)) ! length pre) = Sent s))"
proof -
  let ?xs = "pre @ (r, e) # post"
  let ?s = "fst (run (init t) pre)"
  have "baseline ?s = baseline (init t)"
    using assms(1) by (rule run_baseline_fail)
  then have unset: "start_ts ?s = None"
    by (simp add: baseline_def init_def)
  have "length pre < length ?xs" by simp
  then have "snd (run (init t) ?xs) ! length pre =
      snd (step (fst (run (init t) (take (length pre) ?xs))) (?xs ! length pre))"
    by (rule run_nth)
  then have nth: "snd (run (init t) ?xs) ! length pre = snd (step ?s (r, e))"
    by simp
  show ?thesis
    unfolding nth
    using step_first_no_sleep[OF unset assms(2,3)] step_first_sent_at[OF unset assms(2,3)]
      step_first_sends[OF unset assms(2)]
    by blast
qed

theorem first_record_no_wait_witness:
  "malformed row_bad_id \<and> parse_row row_a = Inr rec_a \<and> 0 \<le> lat_now quiet \<and>
   fst (snd (run (init 100) ([(row_bad_id, quiet)] @ (row_a, quiet) # [(row_b, quiet)])) !
        length [(row_bad_id, quiet)]) = None"
proof -
  have h1: "\<forall>x\<in>set [(row_bad_id, quiet)]. malformed (fst x)"
    by (simp add: malformed_samples)
  have h3: "0 \<le> lat_now quiet"
    by (simp add: quiet_def)
  from first_record_no_wait [OF h1 parse_row_a h3, of 100 "[(row_b, quiet)]"] h3 parse_row_a
  show ?thesis by (simp add: malformed_samples)
qed

lemma step_sent_baseline:
  assumes "snd (snd (step st x)) = Sent s"
  shows "start_ts (fst (step st x)) \<noteq> None"
  using assms
  by (auto simp add: step_proj body_proj after_parse_proj transmit_fields sleep_if_early_fields
      wait_time_def split: sum.splits option.splits)

lemma step_sent_deadline:
  assumes "snd (snd (step st (r, e))) = Sent s" and "parse_row r = Inr rc"
    and "0 \<le> oversleep e" and "0 \<le> lat_send e"
    and "baseline (fst (step st (r, e))) = (Some ts0, Some t0)"
  shows "t0 + (ts rc - ts0) \<le> sent_at s"
    and "fst (snd (step st (r, e))) =
           (let w = (ts rc - ts0) - (reading st rc e - t0) in if 0 < w then Some w else None)"
  using assms
  by (auto simp add: step_proj body_proj after_parse_proj wait_time_def
      baseline_def reading_def sleep_if_early_def transmit_def Let_def
      split: sum.splits option.splits if_splits)

lemma run_behind_schedule:
  "send_instants (snd (run (init 100) [(row_a, quiet), (row_b, late), (row_c, quiet)])) =
     [Some 100, Some 102, Some 102]"
  "map fst (snd (run (init 100) [(row_a, quiet), (row_b, late), (row_c, quiet)])) =
     [None, Some 1, None]"
  by (simp_all add: send_instants_def step_eval sample_parse rec_a_def rec_b_def rec_c_def
      quiet_def late_def)

text \<open>
  Claim C1, as stated, fails: three rows that parse, with timestamps 5 s, 6 s and 6.5 s.
  The sleep before the second frame lasts one second longer than requested, so the
  second frame leaves at 102 s on the clock; the third row then has a wait time that is
  not positive, no sleep, and its frame leaves at 102 s too. The gap between the two
  sends is 0 s, the difference of the timestamps 0.5 s.
\<close>

theorem gap_counterexample:
  "causal quiet \<and> causal late \<and>
   parse_row row_a = Inr rec_a \<and> parse_row row_b = Inr rec_b \<and> parse_row row_c = Inr rec_c \<and>
   ts rec_a \<le> ts rec_b \<and> ts rec_b \<le> ts rec_c \<and>
   send_instants (snd (run (init 100) [(row_a, quiet), (row_b, late), (row_c, quiet)])) =
     [Some 100, Some 102, Some 102] \<and>
   map fst (snd (run (init 100) [(row_a, quiet), (row_b, late), (row_c, quiet)])) =
     [None, Some 1, None] \<and>
   \<not> (ts rec_c - ts rec_b \<le> (102 :: real) - 102)"
  by (simp add: causal_samples sample_parse run_behind_schedule)
     (simp add: rec_a_def rec_b_def rec_c_def)

text \<open>
  Claim C1, amended. In a run from the initial state, for a row that is sent in an
  iteration where the sleep lasts at least the requested time and the send takes no
  negative time: the argument of the sleep is the wait time computed against the
  baseline of the run, \<open>(ts - start_ts) - (now - start_time)\<close>, when that is positive,
  and there is no sleep otherwise; the frame is not sent before its deadline
  \<open>start_time + (ts - start_ts)\<close>; and the gap to any earlier send is at least the
  difference of the timestamps less the time by which the earlier frame was late.
\<close>

theorem no_early_send:
  assumes "j < length xs" and "causal (snd (xs ! j))"
    and "snd (snd (run (init t) xs) ! j) = Sent sj"
    and "parse_row (fst (xs ! j)) = Inr rj"
    and "baseline (fst (run (init t) xs)) = (Some ts0, Some t0)"
  shows "fst (snd (run (init t) xs) ! j) =
           (let w = (ts rj - ts0) -
                    (reading (fst (run (init t) (take j xs))) rj (snd (xs ! j)) - t0)
            in if 0 < w then Some w else None) \<and>
         t0 + (ts rj - ts0) \<le> sent_at sj \<and>
         (\<forall>i si ri. snd (snd (run (init t) xs) ! i) = Sent si \<longrightarrow>
            parse_row (fst (xs ! i)) = Inr ri \<longrightarrow>
            (ts rj - ts ri) - (sent_at si - (t0 + (ts ri - ts0))) \<le> sent_at sj - sent_at si)"
proof -
  let ?s = "fst (run (init t) (take j xs))"
  obtain r e where x: "xs ! j = (r, e)"
    by (cases "xs ! j")
  have nth: "snd (run (init t) xs) ! j = snd (step ?s (r, e))"
    using run_nth[OF assms(1), of "init t"] x by simp
  then have sent: "snd (snd (step ?s (r, e))) = Sent sj"
    using assms(3) by simp
  then have "start_ts (fst (step ?s (r, e))) \<noteq> None"
    by (rule step_sent_baseline)
  then have "baseline (fst (run (fst (step ?s (r, e))) (drop (Suc j) xs))) =
      baseline (fst (step ?s (r, e)))"
    by (rule run_baseline_set)
  then have base: "baseline (fst (step ?s (r, e))) = (Some ts0, Some t0)"
    using run_split_at[OF assms(1), of "init t"] x assms(5) by simp
  have parse: "parse_row r = Inr rj"
    using assms(4) x by simp
  have env: "0 \<le> oversleep e" "0 \<le> lat_send e"
    using assms(2) x by (simp_all add: causal_def)
  note dl = step_sent_deadline[OF sent parse env base]
  have "t0 + (ts rj - ts0) \<le> sent_at sj"
    by (rule dl(1))
  moreover have "fst (snd (run (init t) xs) ! j) =
           (let w = (ts rj - ts0) - (reading ?s rj (snd (xs ! j)) - t0)
            in if 0 < w then Some w else None)"
    using dl(2) nth x by simp
  ultimately show ?thesis
    by (simp add: algebra_simps)
qed

theorem no_early_send_witness:
  "(1::nat) < length [(row_a, quiet), (row_b, late), (row_c, quiet)] \<and>
   causal (snd ([(row_a, quiet), (row_b, late), (row_c, quiet)] ! 1)) \<and>
   snd (snd (run (init 100) [(row_a, quiet), (row_b, late), (row_c, quiet)]) ! 1) =
     Sent \<lparr>sent_at = 102,
           frame = \<lparr>arbitration_id = 672, data = [1, 255], is_extended_id = False\<rparr>,
           line = sent_line rec_b\<rparr> \<and>
   parse_row (fst ([(row_a, quiet), (row_b, late), (row_c, quiet)] ! 1)) = Inr rec_b \<and>
   baseline (fst (run (init 100) [(row_a, quiet), (row_b, late), (row_c, quiet)])) =
     (Some 5, Some 100) \<and>
   fst (snd (run (init 100) [(row_a, quiet), (row_b, late), (row_c, quiet)]) ! 1) = Some 1 \<and>
   (100 :: real) + (ts rec_b - 5) \<le> 102"
proof -
  let ?xs = "[(row_a, quiet), (row_b, late), (row_c, quiet)]"
  have h1: "(1::nat) < length ?xs"
    by simp
  have h2: "causal (snd (?xs ! 1))"
    by (simp add: causal_samples)
  have h3: "snd (snd (run (init 100) ?xs) ! 1) =
     Sent \<lparr>sent_at = 102,
           frame = \<lparr>arbitration_id = 672, data = [1, 255], is_extended_id = False\<rparr>,
           line = sent_line rec_b\<rparr>"
    by (simp add: step_eval sample_parse rec_a_def rec_b_def rec_c_def quiet_def late_def)
  have h4: "parse_row (fst (?xs ! 1)) = Inr rec_b"
    by (simp add: sample_parse)
  have h5: "baseline (fst (run (init 100) ?xs)) = (Some 5, Some 100)"
    by (simp add: baseline_def step_eval sample_parse rec_a_def rec_b_def rec_c_def quiet_def
        late_def)
  have r: "reading (fst (run (init 100) (take 1 ?xs))) rec_b (snd (?xs ! 1)) = 100"
    by (simp add: reading_def step_eval sample_parse rec_a_def rec_b_def quiet_def late_def)
  from no_early_send [OF h1 h2 h3 h4 h5] r h1 h2 h3 h4 h5
  show ?thesis by (simp add: rec_b_def)
qed

subsection \<open>Parsing a row\<close>

lemma and_then_Inr:
  "and_then m f = Inr y \<longleftrightarrow> (\<exists>x. m = Inr x \<and> f x = Inr y)"
  by (cases m) (simp_all add: and_then_def)

lemma row_get_Inr: "row_get r k = Inr c \<longleftrightarrow> r k = Some c"
  by (simp add: row_get_def split: option.splits)

lemma collect_fields:
  "collect r is acc = Inr bs \<Longrightarrow>
   \<exists>vs. bs = acc @ vs \<and> list_all2 (field_value r) (filter (populated r) is) vs"
proof (induction "is" arbitrary: acc)
  case Nil
  then show ?case by simp
next
  case (Cons i "is")
  from Cons.prems obtain c where c: "r (data_key i) = Some c"
    and rest: "(if truthy c then and_then (py_int 16 c) (\<lambda>v. collect r is (acc @ [v]))
                else collect r is acc) = Inr bs"
    by (auto simp add: and_then_Inr row_get_Inr)
  show ?case
  proof (cases "truthy c")
    case False
    with rest have "collect r is acc = Inr bs" by simp
    moreover have "\<not> populated r i"
      using False c by (simp add: populated_def)
    ultimately show ?thesis
      using Cons.IH[of acc] by simp
  next
    case True
    with rest obtain v where v: "py_int 16 c = Inr v" and go: "collect r is (acc @ [v]) = Inr bs"
      by (auto simp add: and_then_Inr)
    from True obtain s where s: "c = Some s" "s \<noteq> []"
      by (cases c) (simp_all add: truthy_def)
    with v have fv: "field_value r i v"
      using c by (simp add: field_value_def py_int_def)
    from Cons.IH[OF go] obtain vs where
      "bs = (acc @ [v]) @ vs" "list_all2 (field_value r) (filter (populated r) is) vs"
      by blast
    moreover have "populated r i"
      using True c by (simp add: populated_def)
    ultimately show ?thesis
      using fv by simp
  qed
qed

lemma parse_row_Inr:
  assumes "parse_row r = Inr rc"
  shows "\<exists>c1 us c2 c3 c4 low.
     r ''Time Stamp'' = Some c1 \<and> py_int 10 c1 = Inr us \<and> ts rc = real_of_int us / 1000000 \<and>
     r ''ID'' = Some c2 \<and> py_int 16 c2 = Inr (canid rc) \<and>
     r ''LEN'' = Some c3 \<and> py_int 10 c3 = Inr (dlc rc) \<and>
     r ''Extended'' = Some c4 \<and> py_lower c4 = Inr low \<and> is_extended rc = (low = ''true'') \<and>
     collect r [1..dlc rc] [] = Inr (data_bytes rc)"
  using assms unfolding parse_row_def and_then_Inr row_get_Inr
  by fastforce

lemma data_key_123: "data_key 1 = ''D1''" "data_key 2 = ''D2''" "data_key 3 = ''D3''"
  by (simp_all add: data_key_def str_eval)

text \<open>
  Claim C6. The payload of a row that parses is the list of what the populated columns
  among \<open>D1\<close> to \<open>D<LEN>\<close> denote in base 16, in the order of the columns; the columns
  that are empty or absent contribute nothing. With \<open>LEN\<close> 3, \<open>D1\<close> and \<open>D3\<close> populated
  and \<open>D2\<close> empty, the payload is the two bytes of \<open>D1\<close> and \<open>D3\<close>, in that order.
\<close>

theorem payload_is_populated_fields:
  assumes "parse_row r = Inr rc"
  shows "list_all2 (field_value r) (filter (populated r) [1..dlc rc]) (data_bytes rc) \<and>
     (dlc rc = 3 \<longrightarrow> r ''D1'' = Some (Some a) \<longrightarrow> a \<noteq> [] \<longrightarrow> r ''D2'' = Some (Some []) \<longrightarrow>
      r ''D3'' = Some (Some c) \<longrightarrow> c \<noteq> [] \<longrightarrow>
      (\<exists>v1 v3. py_int_str 16 a = Inr v1 \<and> py_int_str 16 c = Inr v3 \<and>
                data_bytes rc = [v1, v3]))"
proof -
  from parse_row_Inr[OF assms] have "collect r [1..dlc rc] [] = Inr (data_bytes rc)"
    by blast
  from collect_fields[OF this]
  have all: "list_all2 (field_value r) (filter (populated r) [1..dlc rc]) (data_bytes rc)"
    by simp
  have "\<exists>v1 v3. py_int_str 16 a = Inr v1 \<and> py_int_str 16 c = Inr v3 \<and> data_bytes rc = [v1, v3]"
    if d: "dlc rc = 3" and f: "r ''D1'' = Some (Some a)" "a \<noteq> []" "r ''D2'' = Some (Some [])"
      "r ''D3'' = Some (Some c)" "c \<noteq> []"
  proof -
    have "[1..dlc rc] = [1, 2, 3]"
      using d by (simp add: upto_rec1)
    moreover have "populated r 1" "\<not> populated r 2" "populated r 3"
      using f by (simp_all add: populated_def data_key_123 truthy_def)
    ultimately have "list_all2 (field_value r) [1, 3] (data_bytes rc)"
      using all by simp
    then obtain v1 v3 where "data_bytes rc = [v1, v3]" "field_value r 1 v1" "field_value r 3 v3"
      by (auto simp add: list_all2_Cons1)
    with f show ?thesis
      by (simp add: field_value_def data_key_123)
  qed
  with all show ?thesis by blast
qed

theorem payload_is_populated_fields_witness:
  "parse_row row_a = Inr rec_a \<and> dlc rec_a = 3 \<and>
   row_a ''D1'' = Some (Some ''AB'') \<and> row_a ''D2'' = Some (Some []) \<and>
   row_a ''D3'' = Some (Some ''0x7'') \<and>
   list_all2 (field_value row_a) (filter (populated row_a) [1..dlc rec_a]) (data_bytes rec_a) \<and>
   (\<exists>v1 v3. py_int_str 16 ''AB'' = Inr v1 \<and> py_int_str 16 ''0x7'' = Inr v3 \<and>
             data_bytes rec_a = [v1, v3]) \<and>
   data_bytes rec_a = [171, 7]"
proof -
  have d: "dlc rec_a = 3" "data_bytes rec_a = [171, 7]"
    by (simp_all add: rec_a_def)
  have f: "row_a ''D1'' = Some (Some ''AB'')" "row_a ''D2'' = Some (Some [])"
    "row_a ''D3'' = Some (Some ''0x7'')"
    by (simp_all add: row_a_def row_eval)
  from payload_is_populated_fields [OF parse_row_a, of "''AB''" "''0x7''"] d f parse_row_a
  show ?thesis by simp
qed

lemma lower_char_true:
  "lower_char c = CHR ''t'' \<longleftrightarrow> c = CHR ''t'' \<or> c = CHR ''T''"
  "lower_char c = CHR ''r'' \<longleftrightarrow> c = CHR ''r'' \<or> c = CHR ''R''"
  "lower_char c = CHR ''u'' \<longleftrightarrow> c = CHR ''u'' \<or> c = CHR ''U''"
  "lower_char c = CHR ''e'' \<longleftrightarrow> c = CHR ''e'' \<or> c = CHR ''E''"
  by (auto simp add: lower_char_def)

lemma lower_true_iff: "map lower_char s = ''true'' \<longleftrightarrow> true_ignoring_case s"
proof
  assume h: "map lower_char s = ''true''"
  then have "length (map lower_char s) = length ''true''"
    by simp
  then have "length s = 4"
    by simp
  then obtain a b c d where s: "s = [a, b, c, d]"
    by (auto simp add: numeral_eq_Suc length_Suc_conv)
  with h show "true_ignoring_case s"
    by (auto simp add: true_ignoring_case_def lower_char_true)
next
  assume "true_ignoring_case s"
  then show "map lower_char s = ''true''"
    by (auto simp add: true_ignoring_case_def list_all2_Cons2 lower_char_true)
qed

lemma data_key_D: "\<exists>cs. data_key i = CHR ''D'' # cs"
  by (simp add: data_key_def)

lemma collect_upd_Extended:
  "collect (r(''Extended'' \<mapsto> x)) is acc = collect r is acc"
proof (induction "is" arbitrary: acc)
  case Nil
  then show ?case by simp
next
  case (Cons i "is")
  have "data_key i \<noteq> ''Extended''"
    using data_key_D[of i] by auto
  then have "row_get (r(''Extended'' \<mapsto> x)) (data_key i) = row_get r (data_key i)"
    by (simp add: row_get_def)
  with Cons.IH show ?case by (simp only: collect.simps)
qed

text \<open>
  Claim C7. For a row that parses and has a text in the column \<open>Extended\<close>, the flag is
  set exactly when that text is \<^verbatim>\<open>true\<close> up to the case of its letters; and whatever text
  is put there instead, the row still parses, to the same record but for the flag.
\<close>

theorem extended_flag:
  assumes "parse_row r = Inr rc" and "r ''Extended'' = Some (Some s)"
  shows "is_extended rc = true_ignoring_case s \<and>
     (\<forall>s'. parse_row (r(''Extended'' \<mapsto> Some s')) =
              Inr (rc\<lparr>is_extended := true_ignoring_case s'\<rparr>))"
proof -
  from parse_row_Inr[OF assms(1)] obtain c1 us c2 c3 where f:
    "r ''Time Stamp'' = Some c1" "py_int 10 c1 = Inr us" "ts rc = real_of_int us / 1000000"
    "r ''ID'' = Some c2" "py_int 16 c2 = Inr (canid rc)"
    "r ''LEN'' = Some c3" "py_int 10 c3 = Inr (dlc rc)"
    "is_extended rc = (map lower_char s = ''true'')"
    "collect r [1..dlc rc] [] = Inr (data_bytes rc)"
    using assms(2) by (auto simp add: py_lower_def)
  have "parse_row (r(''Extended'' \<mapsto> Some s')) = Inr (rc\<lparr>is_extended := true_ignoring_case s'\<rparr>)"
    for s'
    using f
    by (simp add: parse_row_def and_then_def row_get_def py_lower_def collect_upd_Extended
        lower_true_iff)
  with f(8) show ?thesis
    by (simp add: lower_true_iff)
qed

theorem extended_flag_witness:
  "parse_row row_a = Inr rec_a \<and> row_a ''Extended'' = Some (Some ''True'') \<and>
   is_extended rec_a = true_ignoring_case ''True'' \<and> true_ignoring_case ''True'' \<and>
   \<not> true_ignoring_case ''yes'' \<and>
   parse_row (row_a(''Extended'' \<mapsto> Some ''yes'')) = Inr (rec_a\<lparr>is_extended := False\<rparr>)"
proof -
  have h: "row_a ''Extended'' = Some (Some ''True'')"
    by (simp add: row_a_def row_eval)
  have t: "true_ignoring_case ''True''" "\<not> true_ignoring_case ''yes''"
    by (simp_all add: true_ignoring_case_def)
  from extended_flag [OF parse_row_a h] have
    "is_extended rec_a = true_ignoring_case ''True''"
    "parse_row (row_a(''Extended'' \<mapsto> Some ''yes'')) =
       Inr (rec_a\<lparr>is_extended := true_ignoring_case ''yes''\<rparr>)"
    by blast+
  with parse_row_a h t show ?thesis
    by simp
qed

subsection \<open>Bytes out of range\<close>

lemma step_consistent: "consistent st \<Longrightarrow> consistent (fst (step st x))"
  by (auto simp add: consistent_def step_proj body_proj after_parse_fields set_baseline_def
      split: sum.splits)

lemma run_consistent: "consistent st \<Longrightarrow> consistent (fst (run st xs))"
  by (induction xs arbitrary: st) (simp_all add: run_Cons step_consistent)

lemma wait_time_consistent:
  "consistent st \<Longrightarrow> \<exists>w. wait_time (set_baseline st rc e) rc = Inr w"
  by (auto simp add: consistent_def wait_time_def set_baseline_def split: option.splits)

lemma step_bad_bytes:
  assumes "consistent st" and "parse_row r = Inr rc" and "py_bytes (data_bytes rc) = Inl err"
  shows "snd (snd (step st (r, e))) = Skipped err r"
proof -
  have "consistent (st\<lparr>clock := clock st + lat_parse e\<rparr>)"
    using assms(1) by (simp add: consistent_def)
  from wait_time_consistent[OF this] obtain w where
    "wait_time (set_baseline (st\<lparr>clock := clock st + lat_parse e\<rparr>) rc e) rc = Inr w"
    by blast
  then show ?thesis
    using assms(2,3) by (simp add: step_proj body_proj after_parse_proj transmit_def)
qed

lemma list_all2_member:
  "list_all2 P xs ys \<Longrightarrow> x \<in> set xs \<Longrightarrow> \<exists>y\<in>set ys. P x y"
  by (induction rule: list_all2_induct) auto

text \<open>
  Claim C9. In a run from the initial state, take a row that parses and in which one of
  the columns \<open>D1\<close> to \<open>D<LEN>\<close> holds a non-empty text denoting, in base 16, a number
  below 0 or above 255. Then \<^verbatim>\<open>bytes\<close> raises \<^verbatim>\<open>ValueError\<close> on the collected values, the
  outcome of the row is the skip line with that exception and the row, so nothing is
  sent for it, and the run still has an outcome for every row.
\<close>

theorem out_of_range_byte_skips_row:
  assumes "i < length xs" and "parse_row (fst (xs ! i)) = Inr rc"
    and "1 \<le> k" and "k \<le> dlc rc"
    and "fst (xs ! i) (data_key k) = Some (Some s)" and "s \<noteq> []"
    and "py_int_str 16 s = Inr v" and "v < 0 \<or> 255 < v"
  shows "py_bytes (data_bytes rc) = Inl ValueError \<and>
         snd (snd (run (init t) xs) ! i) = Skipped ValueError (fst (xs ! i)) \<and>
         length (snd (run (init t) xs)) = length xs"
proof -
  let ?r = "fst (xs ! i)"
  have "list_all2 (field_value ?r) (filter (populated ?r) [1..dlc rc]) (data_bytes rc)"
    using parse_row_Inr[OF assms(2)] collect_fields[of ?r "[1..dlc rc]" "[]" "data_bytes rc"]
    by auto
  moreover have "k \<in> set (filter (populated ?r) [1..dlc rc])"
    using assms(3-6) by (simp add: populated_def truthy_def)
  ultimately obtain v' where "v' \<in> set (data_bytes rc)" "field_value ?r k v'"
    by (blast dest: list_all2_member)
  with assms(5,7) have "v \<in> set (data_bytes rc)"
    by (simp add: field_value_def)
  with assms(8) have "\<not> list_all (\<lambda>x. 0 \<le> x \<and> x < 256) (data_bytes rc)"
    unfolding list_all_iff by (intro notI) force
  then have bad: "py_bytes (data_bytes rc) = Inl ValueError"
    by (simp add: py_bytes_def)
  have "consistent (init t)"
    by (simp add: consistent_def init_def)
  then have "consistent (fst (run (init t) (take i xs)))"
    by (rule run_consistent)
  from step_bad_bytes[OF this assms(2) bad, of "snd (xs ! i)"]
  have "snd (snd (run (init t) xs) ! i) = Skipped ValueError ?r"
    using run_nth[OF assms(1), of "init t"] by simp
  with bad show ?thesis
    by (simp add: length_run)
qed

theorem out_of_range_byte_skips_row_witness:
  "(0::nat) < length [(row_wide, quiet), (row_b, quiet)] \<and>
   parse_row (fst ([(row_wide, quiet), (row_b, quiet)] ! 0)) = Inr rec_wide \<and>
   (1::int) \<le> 2 \<and> 2 \<le> dlc rec_wide \<and>
   fst ([(row_wide, quiet), (row_b, quiet)] ! 0) (data_key 2) = Some (Some ''1FF'') \<and>
   ''1FF'' \<noteq> [] \<and> py_int_str 16 ''1FF'' = Inr 511 \<and> (255::int) < 511 \<and>
   py_bytes (data_bytes rec_wide) = Inl ValueError \<and>
   snd (snd (run (init 100) [(row_wide, quiet), (row_b, quiet)]) ! 0) =
     Skipped ValueError row_wide \<and>
   length (snd (run (init 100) [(row_wide, quiet), (row_b, quiet)])) = 2"
proof -
  let ?xs = "[(row_wide, quiet), (row_b, quiet)]"
  have h1: "(0::nat) < length ?xs" by simp
  have h2: "parse_row (fst (?xs ! 0)) = Inr rec_wide"
    by (simp add: parse_row_wide)
  have h3: "(1::int) \<le> 2" by simp
  have h4: "2 \<le> dlc rec_wide"
    by (simp add: rec_wide_def)
  have h5: "fst (?xs ! 0) (data_key 2) = Some (Some ''1FF'')"
    by (simp add: row_wide_def row_eval str_eval)
  have h6: "''1FF'' \<noteq> []" by simp
  have h7: "py_int_str 16 ''1FF'' = Inr 511"
    by (simp add: int_eval)
  have h8: "(511::int) < 0 \<or> (255::int) < 511" by simp
  from out_of_range_byte_skips_row [OF h1 h2 h3 h4 h5 h6 h7 h8, of 100] h2 h4 h5 h7
  show ?thesis by simp
qed

subsection \<open>The declared length\<close>

lemma step_SentD:
  assumes "snd (snd (step st (r, e))) = Sent s" and "parse_row r = Inr rc"
  shows "py_bytes (data_bytes rc) = Inr (data (frame s))"
    and "arbitration_id (frame s) = canid rc"
    and "is_extended_id (frame s) = is_extended rc"
    and "line s = sent_line rc"
    and "send_error e = None"
  using assms
  by (auto simp add: step_proj body_proj after_parse_proj transmit_def Let_def
      split: sum.splits option.splits)

lemma py_bytes_Inr:
  assumes "py_bytes xs = Inr bs"
  shows "\<forall>x\<in>set xs. 0 \<le> x \<and> x < 256" and "map uint bs = xs"
proof -
  from assms have ok: "list_all (\<lambda>x. 0 \<le> x \<and> x < 256) xs" and bs: "bs = map word_of_int xs"
    by (auto simp add: py_bytes_def split: if_splits)
  from ok show r: "\<forall>x\<in>set xs. 0 \<le> x \<and> x < 256"
    by (simp add: list_all_iff)
  have "uint (word_of_int x :: 8 word) = x" if "x \<in> set xs" for x
    using r that by (simp add: uint_word_of_int take_bit_eq_mod)
  then show "map uint bs = xs"
    unfolding bs by (simp add: map_idI)
qed

lemma length_data_bytes:
  assumes "parse_row r = Inr rc"
  shows "int (length (data_bytes rc)) \<le> max 0 (dlc rc)"
proof -
  have "list_all2 (field_value r) (filter (populated r) [1..dlc rc]) (data_bytes rc)"
    using parse_row_Inr[OF assms] collect_fields[of r "[1..dlc rc]" "[]" "data_bytes rc"]
    by auto
  then have "length (data_bytes rc) = length (filter (populated r) [1..dlc rc])"
    by (simp add: list_all2_lengthD)
  also have "\<dots> \<le> length [1..dlc rc]"
    by (rule length_filter_le)
  finally show ?thesis
    by simp
qed

lemma data_key_9: "data_key 9 = ''D9''"
  by (simp add: data_key_def str_eval)

lemma collect_keys:
  "collect r is acc = Inr bs \<Longrightarrow> i \<in> set is \<Longrightarrow> r (data_key i) \<noteq> None"
proof (induction "is" arbitrary: acc)
  case Nil
  then show ?case by simp
next
  case (Cons j "is")
  from Cons.prems(1) obtain c where c: "r (data_key j) = Some c"
    and rest: "(if truthy c then and_then (py_int 16 c) (\<lambda>v. collect r is (acc @ [v]))
                else collect r is acc) = Inr bs"
    by (auto simp add: and_then_Inr row_get_Inr)
  show ?case
  proof (cases "i = j")
    case True
    with c show ?thesis by simp
  next
    case False
    with Cons.prems(2) have i: "i \<in> set is" by simp
    from rest obtain acc' where "collect r is acc' = Inr bs"
      by (auto simp add: and_then_Inr split: if_splits)
    from Cons.IH[OF this i] show ?thesis .
  qed
qed

lemma parse_row_len_le_8:
  assumes "parse_row r = Inr rc" and "r ''D9'' = None"
  shows "dlc rc \<le> 8"
proof (rule ccontr)
  assume "\<not> dlc rc \<le> 8"
  then have "9 \<in> set [1..dlc rc]" by simp
  moreover from parse_row_Inr[OF assms(1)] have "collect r [1..dlc rc] [] = Inr (data_bytes rc)"
    by blast
  ultimately have "r (data_key 9) \<noteq> None"
    by (rule collect_keys[rotated])
  with assms(2) show False
    by (simp add: data_key_9)
qed

lemma step_parse_fail:
  "parse_row r = Inl err \<Longrightarrow> snd (snd (step st (r, e))) = Skipped err r"
  by (simp add: step_proj body_proj)

lemma long_row_skipped:
  assumes "r ''D9'' = None" and "r ''LEN'' = Some c" and "py_int 10 c = Inr d" and "8 < d"
  shows "\<exists>err. snd (snd (step st (r, e))) = Skipped err r"
proof (cases "parse_row r")
  case (Inl err)
  then show ?thesis
    by (blast intro: step_parse_fail)
next
  case (Inr rc)
  from parse_row_Inr[OF Inr] assms(2,3) have "dlc rc = d"
    by auto
  with parse_row_len_le_8[OF Inr assms(1)] assms(4) show ?thesis
    by simp
qed

lemma parse_row_negative_len:
  assumes "r ''Time Stamp'' = Some c1" and "py_int 10 c1 = Inr us"
    and "r ''ID'' = Some c2" and "py_int 16 c2 = Inr cid"
    and "r ''LEN'' = Some c3" and "py_int 10 c3 = Inr d" and "d < 0"
    and "r ''Extended'' = Some (Some ext)"
  shows "parse_row r =
     Inr \<lparr>ts = real_of_int us / 1000000, canid = cid, dlc = d,
          is_extended = true_ignoring_case ext, data_bytes = []\<rparr>"
  using assms
  by (simp add: parse_row_def and_then_def row_get_def py_lower_def lower_true_iff)

lemma step_sends:
  assumes "parse_row r = Inr rc" and "consistent st" and "py_bytes (data_bytes rc) = Inr bs"
    and "send_error e = None"
  shows "\<exists>s. snd (snd (step st (r, e))) = Sent s \<and>
             frame s = \<lparr>arbitration_id = canid rc, data = bs, is_extended_id = is_extended rc\<rparr> \<and>
             line s = sent_line rc"
proof -
  have "consistent (st\<lparr>clock := clock st + lat_parse e\<rparr>)"
    using assms(2) by (simp add: consistent_def)
  from wait_time_consistent[OF this] obtain w where
    "wait_time (set_baseline (st\<lparr>clock := clock st + lat_parse e\<rparr>) rc e) rc = Inr w"
    by blast
  then show ?thesis
    using assms(1,3,4) by (simp add: step_proj body_proj after_parse_proj transmit_def Let_def)
qed

text \<open>
  Claim C8, amended. Take a row of a log that has no column \<open>D9\<close>. If its
  \<open>LEN\<close> denotes a number above 8, the row is never sent: reading the column \<open>D9\<close>
  raises and the row is skipped. So for a row that is sent the declared length is the
  integer that \<open>LEN\<close> denotes and is at most 8, and the frame carries exactly the
  collected bytes, so that its own length code is at most 8 and at most \<open>max 0 LEN\<close>.
  The lower bound is not checked: a row whose \<open>LEN\<close> denotes a negative number and whose
  other fields parse is sent when the bus accepts it, with no data and the length code
  0, and it is printed with the negative declared length.
\<close>

theorem declared_length_bounds:
  "(r ''D9'' = None \<longrightarrow> r ''LEN'' = Some c \<longrightarrow> py_int 10 c = Inr d \<longrightarrow> 8 < d \<longrightarrow>
      (\<exists>err. snd (snd (step st (r, e))) = Skipped err r)) \<and>
   (r ''D9'' = None \<longrightarrow> snd (snd (step st (r, e))) = Sent s \<longrightarrow> parse_row r = Inr rc \<longrightarrow>
      (\<exists>c. r ''LEN'' = Some c \<and> py_int 10 c = Inr (dlc rc)) \<and> dlc rc \<le> 8 \<and>
      map uint (data (frame s)) = data_bytes rc \<and>
      frame_dlc (frame s) \<le> 8 \<and> int (frame_dlc (frame s)) \<le> max 0 (dlc rc)) \<and>
   (r ''Time Stamp'' = Some c1 \<longrightarrow> py_int 10 c1 = Inr us \<longrightarrow>
    r ''ID'' = Some c2 \<longrightarrow> py_int 16 c2 = Inr cid \<longrightarrow>
    r ''LEN'' = Some c3 \<longrightarrow> py_int 10 c3 = Inr n \<longrightarrow> n < 0 \<longrightarrow>
    r ''Extended'' = Some (Some ext) \<longrightarrow> consistent st \<longrightarrow> send_error e = None \<longrightarrow>
      (\<exists>s'. snd (snd (step st (r, e))) = Sent s' \<and>
            frame s' = \<lparr>arbitration_id = cid, data = [],
                        is_extended_id = true_ignoring_case ext\<rparr> \<and>
            frame_dlc (frame s') = 0 \<and>
            line s' = ''Sent t='' @ py_format_6f (real_of_int us / 1000000) @ ''s ID=0x'' @
                      py_format_X cid @ '' DLC=-'' @ str_nat 10 (nat (- n)) @ '' Data=''))"
proof (intro conjI impI)
  assume "r ''D9'' = None" "r ''LEN'' = Some c" "py_int 10 c = Inr d" "8 < d"
  then show "\<exists>err. snd (snd (step st (r, e))) = Skipped err r"
    by (rule long_row_skipped)
next
  assume a: "r ''D9'' = None" "snd (snd (step st (r, e))) = Sent s" "parse_row r = Inr rc"
  show "\<exists>c. r ''LEN'' = Some c \<and> py_int 10 c = Inr (dlc rc)"
    using parse_row_Inr[OF a(3)] by blast
  show le: "dlc rc \<le> 8"
    using a(3,1) by (rule parse_row_len_le_8)
  show bytes: "map uint (data (frame s)) = data_bytes rc"
    using step_SentD(1)[OF a(2,3)] by (rule py_bytes_Inr(2))
  then have "length (data (frame s)) = length (data_bytes rc)"
    by (metis length_map)
  with length_data_bytes[OF a(3)]
  show m: "int (frame_dlc (frame s)) \<le> max 0 (dlc rc)"
    by (simp add: frame_dlc_def)
  with le show "frame_dlc (frame s) \<le> 8"
    by simp
next
  assume f: "r ''Time Stamp'' = Some c1" "py_int 10 c1 = Inr us" "r ''ID'' = Some c2"
    "py_int 16 c2 = Inr cid" "r ''LEN'' = Some c3" "py_int 10 c3 = Inr n" "n < 0"
    "r ''Extended'' = Some (Some ext)"
    and st: "consistent st" and bus: "send_error e = None"
  let ?rc = "\<lparr>ts = real_of_int us / 1000000, canid = cid, dlc = n,
          is_extended = true_ignoring_case ext, data_bytes = []\<rparr>"
  have p: "parse_row r = Inr ?rc"
    using f by (rule parse_row_negative_len)
  have b: "py_bytes (data_bytes ?rc) = Inr []"
    by (simp add: py_bytes_def)
  from step_sends[OF p st b bus] obtain s' where s':
    "snd (snd (step st (r, e))) = Sent s'"
    "frame s' = \<lparr>arbitration_id = cid, data = [], is_extended_id = true_ignoring_case ext\<rparr>"
    "line s' = sent_line ?rc"
    by auto
  have "sent_line ?rc = ''Sent t='' @ py_format_6f (real_of_int us / 1000000) @ ''s ID=0x'' @
                      py_format_X cid @ '' DLC=-'' @ str_nat 10 (nat (- n)) @ '' Data=''"
    using f(7) by (simp add: sent_line_def py_str_def)
  with s' show "\<exists>s'. snd (snd (step st (r, e))) = Sent s' \<and>
            frame s' = \<lparr>arbitration_id = cid, data = [],
                        is_extended_id = true_ignoring_case ext\<rparr> \<and>
            frame_dlc (frame s') = 0 \<and>
            line s' = ''Sent t='' @ py_format_6f (real_of_int us / 1000000) @ ''s ID=0x'' @
                      py_format_X cid @ '' DLC=-'' @ str_nat 10 (nat (- n)) @ '' Data=''"
    by (auto simp add: frame_dlc_def)
qed

lemma step_b_quiet:
  "snd (snd (step (init 100) (row_b, quiet))) =
     Sent \<lparr>sent_at = 100,
           frame = \<lparr>arbitration_id = 672, data = [1, 255], is_extended_id = False\<rparr>,
           line = sent_line rec_b\<rparr>"
  by (simp add: step_eval sample_parse rec_b_def quiet_def)

theorem declared_length_bounds_witness:
  "row_nine ''D9'' = None \<and> row_nine ''LEN'' = Some (Some ''9'') \<and>
   py_int 10 (Some ''9'') = Inr 9 \<and> (8::int) < 9 \<and>
   (\<exists>err. snd (snd (step (init 100) (row_nine, quiet))) = Skipped err row_nine) \<and>
   snd (snd (step (init 100) (row_nine, quiet))) = Skipped KeyError row_nine \<and>
   row_b ''D9'' = None \<and> parse_row row_b = Inr rec_b \<and>
   snd (snd (step (init 100) (row_b, quiet))) =
     Sent \<lparr>sent_at = 100,
           frame = \<lparr>arbitration_id = 672, data = [1, 255], is_extended_id = False\<rparr>,
           line = sent_line rec_b\<rparr> \<and>
   dlc rec_b = 2 \<and> map uint [1, 255 :: 8 word] = data_bytes rec_b \<and>
   frame_dlc \<lparr>arbitration_id = 672, data = [1, 255], is_extended_id = False\<rparr> = 2 \<and>
   row_neg ''Time Stamp'' = Some (Some ''7000000'') \<and>
   py_int 10 (Some ''7000000'') = Inr 7000000 \<and>
   row_neg ''ID'' = Some (Some ''123'') \<and> py_int 16 (Some ''123'') = Inr 291 \<and>
   row_neg ''LEN'' = Some (Some ''-1'') \<and> py_int 10 (Some ''-1'') = Inr (- 1) \<and>
   row_neg ''Extended'' = Some (Some ''false'') \<and>
   consistent (init 100) \<and> send_error quiet = None \<and>
   (\<exists>s'. snd (snd (step (init 100) (row_neg, quiet))) = Sent s' \<and>
         frame s' = \<lparr>arbitration_id = 291, data = [], is_extended_id = False\<rparr> \<and>
         frame_dlc (frame s') = 0 \<and>
         line s' = ''Sent t=7.000000s ID=0x123 DLC=-1 Data='')"
proof -
  have n: "row_nine ''D9'' = None" "row_nine ''LEN'' = Some (Some ''9'')"
    by (simp_all add: row_nine_def row_eval)
  have n9: "py_int 10 (Some ''9'') = Inr 9"
    by (simp add: int_eval)
  have n8: "(8::int) < 9" by simp
  have nk: "snd (snd (step (init 100) (row_nine, quiet))) = Skipped KeyError row_nine"
    by (simp add: step_proj body_proj parse_row_nine)
  note t1 = declared_length_bounds [where r = row_nine and c = "Some ''9''" and d = 9
      and st = "init 100" and e = quiet, THEN conjunct1, rule_format, OF n n9 n8]
  have part1: "\<exists>err. snd (snd (step (init 100) (row_nine, quiet))) = Skipped err row_nine"
    by (rule t1)
  have b: "row_b ''D9'' = None"
    by (simp add: row_b_def row_eval)
  note t2 = declared_length_bounds [where r = row_b and st = "init 100" and e = quiet
      and rc = rec_b
      and s = "\<lparr>sent_at = 100,
           frame = \<lparr>arbitration_id = 672, data = [1, 255], is_extended_id = False\<rparr>,
           line = sent_line rec_b\<rparr>",
      THEN conjunct2, THEN conjunct1, rule_format, OF b step_b_quiet parse_row_b]
  have part2: "dlc rec_b \<le> 8 \<and> map uint [1, 255 :: 8 word] = data_bytes rec_b \<and>
      frame_dlc \<lparr>arbitration_id = 672, data = [1, 255], is_extended_id = False\<rparr> \<le> 8"
    using t2 by simp
  have part2': "dlc rec_b = 2"
    "frame_dlc \<lparr>arbitration_id = 672, data = [1, 255], is_extended_id = False\<rparr> = 2"
    by (simp_all add: rec_b_def frame_dlc_def)
  have g: "row_neg ''Time Stamp'' = Some (Some ''7000000'')" "row_neg ''ID'' = Some (Some ''123'')"
    "row_neg ''LEN'' = Some (Some ''-1'')" "row_neg ''Extended'' = Some (Some ''false'')"
    by (simp_all add: row_neg_def row_eval)
  have i: "py_int 10 (Some ''7000000'') = Inr 7000000" "py_int 16 (Some ''123'') = Inr 291"
    "py_int 10 (Some ''-1'') = Inr (- 1)"
    by (simp_all add: int_eval)
  have c: "consistent (init 100)" "send_error quiet = None"
    by (simp_all add: consistent_def init_def quiet_def)
  have neg: "(- 1 :: int) < 0" by simp
  note t3 = declared_length_bounds [where r = row_neg and st = "init 100" and e = quiet
      and ?c1.0 = "Some ''7000000''" and us = 7000000 and ?c2.0 = "Some ''123''" and cid = 291
      and ?c3.0 = "Some ''-1''" and n = "- 1" and ext = "''false''",
      THEN conjunct2, THEN conjunct2, rule_format, OF g(1) i(1) g(2) i(2) g(3) i(3) neg g(4) c]
  have "\<exists>s'. snd (snd (step (init 100) (row_neg, quiet))) = Sent s' \<and>
         frame s' = \<lparr>arbitration_id = 291, data = [],
                     is_extended_id = true_ignoring_case ''false''\<rparr> \<and>
         frame_dlc (frame s') = 0 \<and>
         line s' = ''Sent t='' @ py_format_6f (real_of_int 7000000 / 1000000) @ ''s ID=0x'' @
                   py_format_X 291 @ '' DLC=-'' @ str_nat 10 (nat (- (- 1))) @ '' Data=''"
    by (rule t3)
  then have part3: "\<exists>s'. snd (snd (step (init 100) (row_neg, quiet))) = Sent s' \<and>
         frame s' = \<lparr>arbitration_id = 291, data = [], is_extended_id = False\<rparr> \<and>
         frame_dlc (frame s') = 0 \<and>
         line s' = ''Sent t=7.000000s ID=0x123 DLC=-1 Data=''"
    by (simp add: true_ignoring_case_def py_format_6f_def str_eval)
  have m: "map uint [1, 255 :: 8 word] = data_bytes rec_b"
    using part2 by blast
  from n n9 n8 part1 nk b parse_row_b step_b_quiet m part2' g i c part3
  show ?thesis
    by (intro conjI) (simp_all only:)
qed

text \<open>
  Claim C8, as stated, fails: a row with \<^verbatim>\<open>LEN\<close> \<open>-1\<close> parses, the loop over the data
  columns is empty, and the frame is sent, with no data, and printed with \<^verbatim>\<open>DLC=-1\<close>.
\<close>

theorem negative_length_sent:
  "parse_row row_neg = Inr rec_neg \<and> dlc rec_neg = - 1 \<and>
   snd (snd (step (init 100) (row_neg, quiet))) =
     Sent \<lparr>sent_at = 100,
           frame = \<lparr>arbitration_id = 291, data = [], is_extended_id = False\<rparr>,
           line = ''Sent t=7.000000s ID=0x123 DLC=-1 Data=''\<rparr> \<and>
   \<not> (0 \<le> dlc rec_neg \<and> dlc rec_neg \<le> 8)"
  by (simp add: parse_row_neg step_eval)
     (simp add: rec_neg_def quiet_def sent_line_def py_format_6f_def Let_def str_eval)

subsection \<open>The printed line\<close>

lemma below_16: "(\<forall>d<16. P d) \<longleftrightarrow> list_all P [0..<16]"
  by (auto simp add: list_all_iff)

lemma digit_char_props:
  "\<forall>d<16. digit_value (digit_char d) = d \<and> digit_char d \<noteq> CHR ''_'' \<and>
           digit_char d \<in> set ''0123456789ABCDEF'' \<and>
           (d < 10 \<longrightarrow> digit_char d \<in> set ''0123456789'')"
  unfolding below_16
  by (simp add: upt_conv_Cons digit_char_def digit_value_def)

lemma str_nat_chars:
  "2 \<le> base \<Longrightarrow> set (str_nat base n) \<subseteq> digit_char ` {..<base}"
proof (induction base n rule: str_nat.induct)
  case (1 base n)
  show ?case
  proof (cases "n < base")
    case True
    then show ?thesis by (simp add: str_nat_small)
  next
    case False
    with "1.prems" have big: "base \<le> n" and nz: "0 < base" by simp_all
    have "set (str_nat base (n div base)) \<subseteq> digit_char ` {..<base}"
      using "1.IH" False "1.prems" by simp
    moreover have "n mod base < base"
      using nz by simp
    ultimately show ?thesis
      using "1.prems" big by (simp add: str_nat_big)
  qed
qed

lemma str_nat_length:
  "2 \<le> base \<Longrightarrow> n < base ^ k \<Longrightarrow> 0 < k \<Longrightarrow> length (str_nat base n) \<le> k"
proof (induction base n arbitrary: k rule: str_nat.induct)
  case (1 base n)
  show ?case
  proof (cases "n < base")
    case True
    with "1.prems" show ?thesis by (simp add: str_nat_small)
  next
    case False
    then have big: "base \<le> n" by simp
    obtain j where k: "k = Suc j"
      using "1.prems"(3) by (cases k) simp_all
    have jpos: "0 < j"
    proof (rule ccontr)
      assume "\<not> 0 < j"
      then have "k = 1" using k by simp
      with "1.prems"(2) big show False by simp
    qed
    have "n div base < base ^ j"
      using "1.prems"(1,2) k by (simp add: less_mult_imp_div_less mult.commute)
    then have "length (str_nat base (n div base)) \<le> j"
      using "1.IH"[of j] False "1.prems"(1) jpos by simp
    then show ?thesis
      using "1.prems"(1) big k by (simp add: str_nat_big)
  qed
qed

lemma str_nat_nonempty: "str_nat base n \<noteq> []"
  by (subst str_nat.simps) simp

lemma digits_value_snoc:
  "c \<noteq> CHR ''_'' \<Longrightarrow>
   digits_value base (xs @ [c]) = digits_value base xs * int base + int (digit_value c)"
  by (simp add: digits_value_def)

lemma str_nat_value:
  "2 \<le> base \<Longrightarrow> base \<le> 16 \<Longrightarrow> digits_value base (str_nat base n) = int n"
proof (induction base n rule: str_nat.induct)
  case (1 base n)
  show ?case
  proof (cases "n < base")
    case True
    with "1.prems" have "n < 16" by simp
    with digit_char_props have "digit_value (digit_char n) = n" "digit_char n \<noteq> CHR ''_''"
      by blast+
    with True show ?thesis
      by (simp add: str_nat_small digits_value_def)
  next
    case False
    then have big: "base \<le> n" by simp
    have "n mod base < 16"
      using "1.prems" by (metis less_le_trans mod_less_divisor zero_less_numeral)
    with digit_char_props have d: "digit_value (digit_char (n mod base)) = n mod base"
      "digit_char (n mod base) \<noteq> CHR ''_''"
      by blast+
    have "digits_value base (str_nat base (n div base)) = int (n div base)"
      using "1.IH" False "1.prems" by simp
    with d show ?thesis
      using "1.prems"(1) big
      by (simp add: str_nat_big digits_value_snoc zdiv_int zmod_int)
  qed
qed

lemma py_format_6f_micro:
  "py_format_6f (real_of_int us / 1000000) =
     (if us < 0 then ''-'' else '''') @ str_nat 10 (nat (\<bar>us\<bar> div 1000000)) @ ''.'' @
     zero_pad 6 (str_nat 10 (nat (\<bar>us\<bar> mod 1000000)))"
proof -
  have a: "\<bar>real_of_int us / 1000000\<bar> * 1000000 = real_of_int \<bar>us\<bar>"
    by simp
  have f: "\<lfloor>real_of_int \<bar>us\<bar>\<rfloor> = \<bar>us\<bar>"
    by (rule floor_of_int)
  have s: "real_of_int us / 1000000 < 0 \<longleftrightarrow> us < 0"
    by simp
  show ?thesis
    unfolding py_format_6f_def a s Let_def f by simp
qed

lemma py_format_02X_byte:
  assumes "0 \<le> b" and "b < 256"
  shows "py_format_02X b = [digit_char (nat b div 16), digit_char (nat b mod 16)]"
proof (cases "nat b < 16")
  case True
  then show ?thesis
    using assms by (simp add: py_format_02X_def str_nat_small zero_pad_def digit_char_def)
next
  case False
  then have big: "16 \<le> nat b" by simp
  have "nat b div 16 < 16"
    using assms by simp
  then show ?thesis
    using assms big by (simp add: py_format_02X_def str_nat_big str_nat_small zero_pad_def)
qed

lemma digits_value_zero_pad: "digits_value base (zero_pad w s) = digits_value base s"
proof -
  have z: "digit_value CHR ''0'' = 0"
    by (simp add: digit_value_def)
  have "foldl (\<lambda>acc c. acc * int base + int (digit_value c)) 0 (replicate k CHR ''0'') = 0" for k
    by (induction k) (simp_all add: z)
  then show ?thesis
    by (simp add: digits_value_def zero_pad_def)
qed

lemma digit_char_hex: "d < 16 \<Longrightarrow> digit_char d \<in> set ''0123456789ABCDEF''"
  using digit_char_props by blast

lemma digit_char_dec: "d < 10 \<Longrightarrow> digit_char d \<in> set ''0123456789''"
proof -
  assume "d < 10"
  moreover from this have "d < 16" by simp
  ultimately show ?thesis
    using digit_char_props by blast
qed

lemma str_nat_decimal: "decimal (str_nat 10 n)"
proof -
  have "set (str_nat 10 n) \<subseteq> digit_char ` {..<10}"
    by (rule str_nat_chars) simp
  then show ?thesis
    unfolding decimal_def list_all_iff using digit_char_dec by blast
qed

lemma str_nat_upper_hex: "upper_hex (str_nat 16 n)"
proof -
  have "set (str_nat 16 n) \<subseteq> digit_char ` {..<16}"
    by (rule str_nat_chars) simp
  then show ?thesis
    unfolding upper_hex_def list_all_iff using digit_char_hex by blast
qed

lemma decimal_append: "decimal (xs @ ys) \<longleftrightarrow> decimal xs \<and> decimal ys"
  by (simp add: decimal_def)

lemma decimal_zeros: "decimal (replicate k CHR ''0'')"
  by (induction k) (simp_all add: decimal_def)

lemma fraction_digits:
  assumes "n < 1000000"
  shows "length (zero_pad 6 (str_nat 10 n)) = 6" and "decimal (zero_pad 6 (str_nat 10 n))"
proof -
  have "n < 10 ^ 6" using assms by simp
  then have "length (str_nat 10 n) \<le> 6"
    by (intro str_nat_length) simp_all
  then show "length (zero_pad 6 (str_nat 10 n)) = 6"
    by (simp add: zero_pad_def)
  show "decimal (zero_pad 6 (str_nat 10 n))"
    unfolding zero_pad_def decimal_append using str_nat_decimal decimal_zeros by blast
qed

lemma byte_format:
  assumes "0 \<le> b" and "b < 256"
  shows "length (py_format_02X b) = 2" and "upper_hex (py_format_02X b)"
    and "digits_value 16 (py_format_02X b) = b"
proof -
  have "digits_value 16 (zero_pad 2 (str_nat 16 (nat b))) = int (nat b)"
    unfolding digits_value_zero_pad by (rule str_nat_value) simp_all
  then show "digits_value 16 (py_format_02X b) = b"
    using assms by (simp add: py_format_02X_def)
  have d: "nat b div 16 < 16" "nat b mod 16 < 16"
    using assms by simp_all
  show "length (py_format_02X b) = 2"
    using assms by (simp add: py_format_02X_byte)
  show "upper_hex (py_format_02X b)"
    unfolding py_format_02X_byte[OF assms] upper_hex_def
    by (simp only: list.pred_inject digit_char_hex[OF d(1)] digit_char_hex[OF d(2)])
qed

text \<open>
  Claim C5, amended. The line printed for a row that is sent reads
  \<^verbatim>\<open>Sent t=<sec>.<6 digits>s ID=0x<HEX> DLC=<int> Data=<bytes>\<close>, where the number after
  \<^verbatim>\<open>t=\<close> is the row's own timestamp in seconds, the column \<open>Time Stamp\<close> divided by
  \<open>10\<^sup>6\<close>, with six decimals (not the time since the first row), the identifier is in
  upper-case hexadecimal, the declared length in decimal, and each byte of the payload
  is two upper-case hexadecimal digits, the bytes separated by one space.
\<close>

theorem sent_line_format:
  assumes "snd (snd (step st (r, e))) = Sent s" and "parse_row r = Inr rc"
  shows "\<exists>c us ip fp hx.
     r ''Time Stamp'' = Some c \<and> py_int 10 c = Inr us \<and>
     line s = ''Sent t='' @ (if us < 0 then ''-'' else '''') @ ip @ ''.'' @ fp @
              ''s ID=0x'' @ (if canid rc < 0 then ''-'' else '''') @ hx @
              '' DLC='' @ py_str (dlc rc) @
              '' Data='' @ py_join '' '' (map py_format_02X (data_bytes rc)) \<and>
     decimal ip \<and> ip \<noteq> [] \<and> decimal fp \<and> length fp = 6 \<and>
     digits_value 10 ip * 1000000 + digits_value 10 fp = \<bar>us\<bar> \<and>
     upper_hex hx \<and> hx \<noteq> [] \<and> digits_value 16 hx = \<bar>canid rc\<bar> \<and>
     (\<forall>b\<in>set (data_bytes rc).
        length (py_format_02X b) = 2 \<and> upper_hex (py_format_02X b) \<and>
        digits_value 16 (py_format_02X b) = b)"
proof -
  from parse_row_Inr[OF assms(2)] obtain c us where
    c: "r ''Time Stamp'' = Some c" "py_int 10 c = Inr us" "ts rc = real_of_int us / 1000000"
    by blast
  define ip where "ip = str_nat 10 (nat (\<bar>us\<bar> div 1000000))"
  define fp where "fp = zero_pad 6 (str_nat 10 (nat (\<bar>us\<bar> mod 1000000)))"
  define hx where "hx = str_nat 16 (nat \<bar>canid rc\<bar>)"
  have line: "line s = ''Sent t='' @ (if us < 0 then ''-'' else '''') @ ip @ ''.'' @ fp @
              ''s ID=0x'' @ (if canid rc < 0 then ''-'' else '''') @ hx @
              '' DLC='' @ py_str (dlc rc) @
              '' Data='' @ py_join '' '' (map py_format_02X (data_bytes rc))"
    using step_SentD(4)[OF assms]
    by (simp add: sent_line_def c(3) py_format_6f_micro py_format_X_def ip_def fp_def hx_def)
  have ip: "decimal ip" "ip \<noteq> []"
    by (simp_all add: ip_def str_nat_decimal str_nat_nonempty)
  have "nat (\<bar>us\<bar> mod 1000000) < 1000000"
    by simp
  from fraction_digits[OF this] have fp: "decimal fp" "length fp = 6"
    by (simp_all add: fp_def)
  have "digits_value 10 ip = \<bar>us\<bar> div 1000000" "digits_value 10 fp = \<bar>us\<bar> mod 1000000"
    by (simp_all add: ip_def fp_def digits_value_zero_pad str_nat_value)
  then have val: "digits_value 10 ip * 1000000 + digits_value 10 fp = \<bar>us\<bar>"
    by simp
  have hx: "upper_hex hx" "hx \<noteq> []" "digits_value 16 hx = \<bar>canid rc\<bar>"
    by (simp_all add: hx_def str_nat_upper_hex str_nat_nonempty str_nat_value)
  have bytes: "\<forall>b\<in>set (data_bytes rc).
        length (py_format_02X b) = 2 \<and> upper_hex (py_format_02X b) \<and>
        digits_value 16 (py_format_02X b) = b"
    using py_bytes_Inr(1)[OF step_SentD(1)[OF assms]] byte_format by blast
  from c(1,2) line ip fp val hx bytes show ?thesis
    by blast
qed

lemma run_two_lines:
  "printed_lines (snd (run (init 100) [(row_a, quiet), (row_b, quiet)])) =
     [Some ''Sent t=5.000000s ID=0x1F DLC=3 Data=AB 07'',
      Some ''Sent t=6.000000s ID=0x2A0 DLC=2 Data=01 FF'']"
  by (simp add: printed_lines_def step_eval sample_parse rec_a_def rec_b_def quiet_def
      sent_line_def py_format_6f_def str_eval)

text \<open>
  Claim C5, as stated, fails: in a run over the rows with timestamps 5 s and 6 s the
  lines show \<^verbatim>\<open>t=5.000000\<close> and \<^verbatim>\<open>t=6.000000\<close>, the timestamps themselves, where the
  times since the first row are \<^verbatim>\<open>0.000000\<close> and \<^verbatim>\<open>1.000000\<close>.
\<close>

theorem printed_time_counterexample:
  "parse_row row_a = Inr rec_a \<and> parse_row row_b = Inr rec_b \<and>
   printed_lines (snd (run (init 100) [(row_a, quiet), (row_b, quiet)])) =
     [Some ''Sent t=5.000000s ID=0x1F DLC=3 Data=AB 07'',
      Some ''Sent t=6.000000s ID=0x2A0 DLC=2 Data=01 FF''] \<and>
   py_format_6f (ts rec_a - ts rec_a) = ''0.000000'' \<and>
   py_format_6f (ts rec_b - ts rec_a) = ''1.000000''"
  by (simp add: sample_parse run_two_lines)
     (simp add: rec_a_def rec_b_def py_format_6f_def Let_def str_eval)

lemma step_a_quiet:
  "snd (snd (step (init 100) (row_a, quiet))) =
     Sent \<lparr>sent_at = 100,
           frame = \<lparr>arbitration_id = 31, data = [171, 7], is_extended_id = True\<rparr>,
           line = sent_line rec_a\<rparr>"
  by (simp add: step_eval sample_parse rec_a_def quiet_def)

theorem sent_line_format_witness:
  "snd (snd (step (init 100) (row_a, quiet))) =
     Sent \<lparr>sent_at = 100,
           frame = \<lparr>arbitration_id = 31, data = [171, 7], is_extended_id = True\<rparr>,
           line = sent_line rec_a\<rparr> \<and>
   parse_row row_a = Inr rec_a \<and>
   sent_line rec_a = ''Sent t=5.000000s ID=0x1F DLC=3 Data=AB 07'' \<and>
   (\<exists>ip fp hx.
      sent_line rec_a = ''Sent t='' @ ip @ ''.'' @ fp @ ''s ID=0x'' @ hx @ '' DLC=3 Data=AB 07'' \<and>
      decimal ip \<and> decimal fp \<and> length fp = 6 \<and> upper_hex hx \<and>
      digits_value 10 ip * 1000000 + digits_value 10 fp = 5000000 \<and>
      digits_value 16 hx = 31)"
proof -
  have l: "sent_line rec_a = ''Sent t=5.000000s ID=0x1F DLC=3 Data=AB 07''"
    by (simp add: rec_a_def sent_line_def py_format_6f_def str_eval)
  have us: "py_int 10 (Some ''5000000'') = Inr 5000000"
    by (simp add: int_eval)
  have c: "row_a ''Time Stamp'' = Some (Some ''5000000'')"
    by (simp add: row_a_def row_eval)
  from sent_line_format [OF step_a_quiet parse_row_a] obtain c' us' ip fp hx where f:
    "row_a ''Time Stamp'' = Some c'" "py_int 10 c' = Inr us'"
    "sent_line rec_a = ''Sent t='' @ (if us' < 0 then ''-'' else '''') @ ip @ ''.'' @ fp @
       ''s ID=0x'' @ (if canid rec_a < 0 then ''-'' else '''') @ hx @
       '' DLC='' @ py_str (dlc rec_a) @
       '' Data='' @ py_join '' '' (map py_format_02X (data_bytes rec_a))"
    "decimal ip" "decimal fp" "length fp = 6"
    "digits_value 10 ip * 1000000 + digits_value 10 fp = \<bar>us'\<bar>"
    "upper_hex hx" "digits_value 16 hx = \<bar>canid rec_a\<bar>"
    by auto
  from f(1,2) c us have "us' = 5000000"
    by simp
  with f(3-9) have "sent_line rec_a = ''Sent t='' @ ip @ ''.'' @ fp @ ''s ID=0x'' @ hx @ '' DLC=3 Data=AB 07'' \<and>
      decimal ip \<and> decimal fp \<and> length fp = 6 \<and> upper_hex hx \<and>
      digits_value 10 ip * 1000000 + digits_value 10 fp = 5000000 \<and>
      digits_value 16 hx = 31"
    by (simp add: rec_a_def str_eval)
  then have "\<exists>ip fp hx.
      sent_line rec_a = ''Sent t='' @ ip @ ''.'' @ fp @ ''s ID=0x'' @ hx @ '' DLC=3 Data=AB 07'' \<and>
      decimal ip \<and> decimal fp \<and> length fp = 6 \<and> upper_hex hx \<and>
      digits_value 10 ip * 1000000 + digits_value 10 fp = 5000000 \<and>
      digits_value 16 hx = 31"
    by blast
  with step_a_quiet parse_row_a l show ?thesis
    by blast
qed

end
